theory Spec2Isabelle
  imports Complex_Main "HOL-Library.AList" "HOL-Library.Char_ord" "HOL-Library.List_Lexorder"
begin

section \<open>Python values\<close>

text \<open>
  The backend passes tasks, events and payloads around as Python dictionaries with string
  keys and JSON-like values (\<open>Dict[str, Any]\<close>), persisted with \<open>json.dump\<close>. A value is
  modelled by \<open>json\<close>; a dictionary is an association list in insertion order, read with
  \<open>map_of\<close> (\<open>d.get(k)\<close>) and written with \<open>AList.update\<close> (\<open>d[k] = v\<close>: an existing key
  keeps its position, a new key goes last). Floating point values are not modelled.
\<close>

datatype json =
    JNull
  | JBool bool
  | JInt int
  | JStr string
  | JList "json list"
  | JObj "(string \<times> json) list"

type_synonym pydict = "(string \<times> json) list"

datatype error =
    KeyError string
  | ValueError string
  | TypeError
  | AttributeError
  | OSError
  | PolicyViolation string

text \<open>\<open>bool(v)\<close>: the truth value Python gives a value in \<open>if v\<close>, \<open>not v\<close> and \<open>a or b\<close>.\<close>

fun truthy :: "json \<Rightarrow> bool" where
  "truthy JNull = False"
| "truthy (JBool b) = b"
| "truthy (JInt n) = (n \<noteq> 0)"
| "truthy (JStr s) = (s \<noteq> [])"
| "truthy (JList xs) = (xs \<noteq> [])"
| "truthy (JObj kvs) = (kvs \<noteq> [])"

text \<open>Lists and dictionaries cannot be hashed: using one as a set member or dictionary key
  raises \<open>TypeError\<close>.\<close>

fun hashable :: "json \<Rightarrow> bool" where
  "hashable (JList xs) = False"
| "hashable (JObj kvs) = False"
| "hashable v = True"

text \<open>The number a value is when it is one: \<open>True\<close> and \<open>False\<close> count as \<open>1\<close> and \<open>0\<close>.\<close>

fun num_of :: "json \<Rightarrow> int option" where
  "num_of (JInt n) = Some n"
| "num_of (JBool b) = Some (if b then 1 else 0)"
| "num_of v = None"

text \<open>
  \<open>a == b\<close>: numbers are equal by value (so \<open>True == 1\<close>), strings and \<open>None\<close> only to
  themselves, lists element by element, and dictionaries when they have the same keys
  with equal values, whatever the order of the keys.
\<close>

function py_eq :: "json \<Rightarrow> json \<Rightarrow> bool" where
  "py_eq JNull v = (v = JNull)"
| "py_eq (JBool b) v = (num_of v = Some (if b then 1 else 0))"
| "py_eq (JInt n) v = (num_of v = Some n)"
| "py_eq (JStr s) v = (v = JStr s)"
| "py_eq (JList xs) v = (case v of JList ys \<Rightarrow> list_all2 py_eq xs ys | _ \<Rightarrow> False)"
| "py_eq (JObj d) v =
     (case v of
        JObj d' \<Rightarrow>
          set (map fst d) = set (map fst d')
          \<and> list_all (\<lambda>k. case map_of d k of
                             None \<Rightarrow> False
                           | Some x \<Rightarrow> (case map_of d' k of None \<Rightarrow> False | Some y \<Rightarrow> py_eq x y))
                (map fst d)
      | _ \<Rightarrow> False)"
  by pat_completeness auto
termination
proof (relation "measure (\<lambda>(a, b). size a)")
  show "wf (measure (\<lambda>(a, b). size a))" by simp
next
  fix xs :: "json list" and v :: json and ys :: "json list" and x y :: json
  assume "x \<in> set xs"
  then show "((x, y), JList xs, v) \<in> measure (\<lambda>(a, b). size a)"
    by (simp add: less_Suc_eq_le size_list_estimation')
next
  fix d :: "(string \<times> json) list" and v :: json and d' :: "(string \<times> json) list"
    and k :: string and x y :: json
  assume "map_of d k = Some x"
  then have "(k, x) \<in> set d" by (rule map_of_SomeD)
  then have "size x < size_list (size_prod (\<lambda>_. 0) size) d"
    by (rule size_list_estimation) simp
  then show "((x, y), JObj d, v) \<in> measure (\<lambda>(a, b). size a)"
    by simp
qed

text \<open>\<open>d.get(k)\<close> with the default \<open>None\<close>, and \<open>d.get(k, dflt)\<close>.\<close>

definition get_none :: "pydict \<Rightarrow> string \<Rightarrow> json" where
  "get_none d k = (case map_of d k of None \<Rightarrow> JNull | Some v \<Rightarrow> v)"

definition get_default :: "pydict \<Rightarrow> string \<Rightarrow> json \<Rightarrow> json" where
  "get_default d k dflt = (case map_of d k of None \<Rightarrow> dflt | Some v \<Rightarrow> v)"

text \<open>\<open>d.update(patch)\<close>: the patch's items are stored one by one, in the patch's order.\<close>

definition dict_update :: "pydict \<Rightarrow> pydict \<Rightarrow> pydict" where
  "dict_update d patch = fold (\<lambda>kv. AList.update (fst kv) (snd kv)) patch d"

text \<open>\<open>d.setdefault(k, v)\<close>: stores \<open>v\<close> only when \<open>k\<close> is not yet a key.\<close>

definition setdefault :: "string \<Rightarrow> json \<Rightarrow> pydict \<Rightarrow> pydict" where
  "setdefault k v d = (case map_of d k of None \<Rightarrow> AList.update k v d | Some w \<Rightarrow> d)"

section \<open>Task graph store (\<open>task_graph/store.py\<close>)\<close>

text \<open>
  The registry is the list under \<open>"tasks"\<close> of the graph document; \<open>load_graph\<close> and
  \<open>save_graph\<close> read and rewrite the whole document, so every operation takes the task list
  and returns the new one. The clock reading \<open>_now_iso()\<close> and the fresh
  \<open>uuid.uuid4().hex\<close> are inputs of the operation that takes them. An operation that raises
  returns \<open>Inl\<close> and the registry as it was left.
\<close>

definition create_task :: "string \<Rightarrow> string \<Rightarrow> pydict \<Rightarrow> pydict list \<Rightarrow> (error + pydict) \<times> pydict list" where
  "create_task now uuid task tasks =
     (case map_of task ''type'' of
        None \<Rightarrow> (Inl (KeyError ''type''), tasks)
      | Some ty \<Rightarrow>
          (case map_of task ''status'' of
             None \<Rightarrow> (Inl (KeyError ''status''), tasks)
           | Some st \<Rightarrow>
               (let node =
                  [(''id'', get_default task ''id'' (JStr (''task-'' @ uuid))),
                   (''type'', ty),
                   (''status'', st),
                   (''owner'', get_none task ''owner''),
                   (''inputs'', get_default task ''inputs'' (JObj [])),
                   (''outputs'', get_default task ''outputs'' (JObj [])),
                   (''context'', get_default task ''context'' (JObj [])),
                   (''metadata'', get_default task ''metadata'' (JObj [])),
                   (''priority'', get_default task ''priority'' (JInt 0)),
                   (''attempt'', get_default task ''attempt'' (JInt 0)),
                   (''created_at'', get_default task ''created_at'' (JStr now)),
                   (''updated_at'', JStr now),
                   (''parent_id'', get_none task ''parent_id''),
                   (''dependency_ids'', get_default task ''dependency_ids'' (JList []))]
                in (Inr node, tasks @ [node]))))"

text \<open>
  \<open>update_task\<close> scans the registry in storage order for the first node whose \<open>"id"\<close>
  equals \<open>task_id\<close>; a node without an \<open>"id"\<close> met on the way raises \<open>KeyError\<close> (from
  \<open>node["id"]\<close>). The node found is patched, restamped and the document saved.
  \<open>update_scan\<close> is the loop, with the nodes already passed in \<open>seen\<close>. The id looked
  for is a value, since \<open>poll_next_task\<close> passes \<open>node["id"]\<close> as it reads it; ids are
  compared with \<open>==\<close>. The message of the final \<open>KeyError\<close> (which quotes the id) is
  abbreviated.
\<close>

fun update_scan :: "string \<Rightarrow> json \<Rightarrow> pydict \<Rightarrow> pydict list \<Rightarrow> pydict list \<Rightarrow> (error + pydict) \<times> pydict list" where
  "update_scan now task_id patch seen [] =
     (Inl (KeyError ''task not found''), seen)"
| "update_scan now task_id patch seen (node # rest) =
     (case map_of node ''id'' of
        None \<Rightarrow> (Inl (KeyError ''id''), seen @ node # rest)
      | Some i \<Rightarrow>
          if py_eq i task_id
          then (let node' = AList.update ''updated_at'' (JStr now) (dict_update node patch)
                in (Inr node', seen @ node' # rest))
          else update_scan now task_id patch (seen @ [node]) rest)"

text \<open>The patch is passed as keyword arguments, so a patch key \<open>task_id\<close> clashes with the
  parameter of that name and the call raises \<open>TypeError\<close> before anything is read.\<close>

definition update_task :: "string \<Rightarrow> json \<Rightarrow> pydict \<Rightarrow> pydict list \<Rightarrow> (error + pydict) \<times> pydict list" where
  "update_task now task_id patch tasks =
     (if ''task_id'' \<in> fst ` set patch then (Inl TypeError, tasks)
      else update_scan now task_id patch [] tasks)"

text \<open>
  \<open>list_active(statuses)\<close>: every task when the filter is absent or empty, otherwise the
  tasks whose status is a member of the filter, in storage order. Membership hashes the
  status, so a list or dictionary there raises \<open>TypeError\<close>.
\<close>

fun filter_status :: "string list \<Rightarrow> pydict list \<Rightarrow> error + pydict list" where
  "filter_status wanted [] = Inr []"
| "filter_status wanted (task # rest) =
     (let s = get_none task ''status'' in
      if \<not> hashable s then Inl TypeError
      else (case filter_status wanted rest of
              Inl e \<Rightarrow> Inl e
            | Inr kept \<Rightarrow> Inr (if s \<in> JStr ` set wanted then task # kept else kept)))"

definition list_active :: "string list option \<Rightarrow> pydict list \<Rightarrow> error + pydict list" where
  "list_active statuses tasks =
     (case statuses of
        None \<Rightarrow> Inr tasks
      | Some [] \<Rightarrow> Inr tasks
      | Some (s # ss) \<Rightarrow> filter_status (s # ss) tasks)"

section \<open>Library functions\<close>

text \<open>
  The functions of Python's library that the backend calls on its values are parameters of
  the model: \<open>str(v)\<close> as an f-string applies it to a value that is not already a string,
  \<open>str.strip\<close>, \<open>json.dumps(v, sort_keys=True)\<close>, the same with \<open>ensure_ascii=False\<close>, and
  \<open>hashlib.sha256(s.encode("utf-8")).hexdigest()\<close>. So is the file system: \<open>can_open\<close>
  tells whether the file at a path below the data directory can be opened for writing
  (the backend creates the directories \<open>logs\<close> and \<open>summaries\<close> and nothing below them, so
  a path that names a further directory cannot). Every theorem holds for any choice of
  them.
\<close>

record pylib =
  py_str :: "json \<Rightarrow> string"
  py_strip :: "string \<Rightarrow> string"
  dumps_sorted :: "json \<Rightarrow> string"
  dumps_sorted_unicode :: "json \<Rightarrow> string"
  sha256_hex :: "string \<Rightarrow> string"
  can_open :: "string \<Rightarrow> bool"

text \<open>\<open>f"{v}"\<close>: a string is inserted as it is, any other value through \<open>str\<close>.\<close>

definition fmt :: "pylib \<Rightarrow> json \<Rightarrow> string" where
  "fmt L v = (case v of JStr s \<Rightarrow> s | _ \<Rightarrow> py_str L v)"

text \<open>\<open>sep.join(lines)\<close>.\<close>

fun join :: "string \<Rightarrow> string list \<Rightarrow> string" where
  "join sep [] = []"
| "join sep [x] = x"
| "join sep (x # y # ys) = x @ sep @ join sep (y # ys)"

text \<open>The slices \<open>xs[k:]\<close> and \<open>xs[:k]\<close> for an integer \<open>k\<close>: a negative \<open>k\<close> counts from the
  end, and an index beyond either end is clipped.\<close>

definition slice_from :: "int \<Rightarrow> 'a list \<Rightarrow> 'a list" where
  "slice_from k xs = (if k < 0 then drop (nat (int (length xs) + k)) xs else drop (nat k) xs)"

definition slice_to :: "int \<Rightarrow> 'a list \<Rightarrow> 'a list" where
  "slice_to k xs = (if k < 0 then take (nat (int (length xs) + k)) xs else take (nat k) xs)"

section \<open>Event log (\<open>log/query.py\<close>)\<close>

text \<open>
  The log directory holds one journal per conversation, the file
  \<open>f"{conversation_id}.jsonl"\<close>; the model maps that formatted id to the journal's entries
  in the order of its lines, and to \<open>None\<close> while the file does not exist. Opening the
  journal for appending raises \<open>OSError\<close> (\<open>FileNotFoundError\<close> for an id such as \<open>x/y\<close>,
  whose directory nobody created) when the file system cannot open that path, and then
  nothing is written. Journals are told apart by the text of the id: two ids that spell
  the same file differently, which takes a path separator, are not identified. An entry
  is written with \<open>json.dumps\<close> and read back with \<open>json.loads\<close>; this round trip is taken
  to return the entry as it was.
\<close>

type_synonym journals = "string \<Rightarrow> pydict list option"

definition journal :: "journals \<Rightarrow> string \<Rightarrow> pydict list" where
  "journal logs path = (case logs path of None \<Rightarrow> [] | Some entries \<Rightarrow> entries)"

text \<open>The entry \<open>append_event\<close> builds from an event: a copy with \<open>conversation_id\<close> and
  \<open>id\<close> defaulted and \<open>timestamp\<close> set to the clock reading.\<close>

definition entry_of :: "string \<Rightarrow> string \<Rightarrow> json \<Rightarrow> pydict \<Rightarrow> pydict" where
  "entry_of now uuid conv event =
     AList.update ''timestamp'' (JStr now)
       (setdefault ''id'' (JStr (''evt-'' @ uuid))
          (setdefault ''conversation_id'' conv event))"

definition log_path :: "string \<Rightarrow> string" where
  "log_path name = ''logs/'' @ name @ ''.jsonl''"

definition append_event :: "pylib \<Rightarrow> string \<Rightarrow> string \<Rightarrow> pydict \<Rightarrow> journals \<Rightarrow> (error + json) \<times> journals" where
  "append_event L now uuid event logs =
     (let conv = get_none event ''conversation_id'' in
      if \<not> truthy conv then (Inl (ValueError ''conversation_id is required''), logs)
      else (let entry = entry_of now uuid conv event;
                path = fmt L conv
            in if \<not> can_open L (log_path path) then (Inl OSError, logs)
               else (Inr (get_none entry ''id''), logs(path \<mapsto> journal logs path @ [entry]))))"

definition tail :: "string \<Rightarrow> int \<Rightarrow> journals \<Rightarrow> pydict list" where
  "tail conv limit logs =
     (case logs conv of
        None \<Rightarrow> []
      | Some lines \<Rightarrow> slice_from (- limit) lines)"

text \<open>The timestamp of an entry, as the string \<open>append_event\<close> stored.\<close>

definition timestamp_of :: "pydict \<Rightarrow> string" where
  "timestamp_of entry = (case get_none entry ''timestamp'' of JStr s \<Rightarrow> s | _ \<Rightarrow> [])"

section \<open>Agent runtime (\<open>agents/base.py\<close>, \<open>agents/runtime.py\<close>)\<close>

record AgentTask =
  t_id :: json
  t_type :: json
  t_status :: json
  t_owner :: json
  t_priority :: json
  t_inputs :: json
  t_context :: json
  t_metadata :: json
  t_attempt :: json

record AgentResult =
  r_task_id :: string
  r_outcome :: string
  r_artifacts :: "json list"
  r_notes :: "string option"
  r_next_actions :: "pydict list option"

record AgentError =
  e_task_id :: string
  e_reason :: string
  e_retryable :: bool
  e_details :: pydict

record AgentRuntime =
  agent_id :: string
  agent_type :: string
  heartbeat_interval :: real
  last_heartbeat_at :: "real option"

text \<open>\<open>v.get(k)\<close> on a field that should hold a dictionary: any other value has no \<open>get\<close>
  and raises \<open>AttributeError\<close>.\<close>

definition obj_get :: "json \<Rightarrow> string \<Rightarrow> error + json" where
  "obj_get v k = (case v of JObj d \<Rightarrow> Inr (get_none d k) | _ \<Rightarrow> Inl AttributeError)"

text \<open>\<open>AgentTask.conversation_id\<close>: the first truthy one of the metadata's id, the inputs'
  id and the task's own id (the last whatever it is).\<close>

definition conversation_id :: "AgentTask \<Rightarrow> error + json" where
  "conversation_id task =
     (case obj_get (t_metadata task) ''conversation_id'' of
        Inl e \<Rightarrow> Inl e
      | Inr a \<Rightarrow>
          if truthy a then Inr a
          else (case obj_get (t_inputs task) ''conversation_id'' of
                  Inl e \<Rightarrow> Inl e
                | Inr b \<Rightarrow> if truthy b then Inr b else Inr (t_id task)))"

definition opt_str :: "string option \<Rightarrow> json" where
  "opt_str s = (case s of None \<Rightarrow> JNull | Some x \<Rightarrow> JStr x)"

definition to_payload :: "AgentError \<Rightarrow> pydict" where
  "to_payload err =
     [(''task_id'', JStr (e_task_id err)),
      (''reason'', JStr (e_reason err)),
      (''retryable'', JBool (e_retryable err)),
      (''details'', JObj (e_details err))]"

text \<open>\<open>_enforce_policy\<close>: a truthy \<open>"render_to_user"\<close> raises; otherwise the key is popped
  from the payload, which the caller goes on to use.\<close>

definition enforce_policy :: "pydict \<Rightarrow> error + pydict" where
  "enforce_policy payload =
     (if truthy (get_none payload ''render_to_user'')
      then Inl (PolicyViolation ''Agent events cannot add user-visible output; narrator only.'')
      else Inr (AList.delete ''render_to_user'' payload))"

text \<open>\<open>AgentRuntime._append_event\<close>.\<close>

definition rt_append_event :: "pylib \<Rightarrow> string \<Rightarrow> string \<Rightarrow> AgentTask \<Rightarrow> string \<Rightarrow> pydict \<Rightarrow> journals \<Rightarrow> (error + unit) \<times> journals" where
  "rt_append_event L now uuid task kind payload logs =
     (case conversation_id task of
        Inl e \<Rightarrow> (Inl e, logs)
      | Inr conv \<Rightarrow>
          (case append_event L now uuid
                  [(''conversation_id'', conv),
                   (''type'', JStr kind),
                   (''payload'', JObj payload),
                   (''visibility'', JStr ''internal'')] logs of
             (Inl e, logs') \<Rightarrow> (Inl e, logs')
           | (Inr i, logs') \<Rightarrow> (Inr (), logs')))"

text \<open>The payload \<open>emit_update\<close> builds before the guard sees it.\<close>

definition emit_payload :: "AgentRuntime \<Rightarrow> AgentTask \<Rightarrow> string \<Rightarrow> pydict option \<Rightarrow> pydict option \<Rightarrow> pydict" where
  "emit_payload rt task message progress extra =
     (let p0 = [(''task_id'', t_id task),
                (''agent_id'', JStr (agent_id rt)),
                (''agent_type'', JStr (agent_type rt)),
                (''message'', JStr message)];
          p1 = (case progress of None \<Rightarrow> p0 | Some pr \<Rightarrow> AList.update ''progress'' (JObj pr) p0)
      in (case extra of
            None \<Rightarrow> p1
          | Some [] \<Rightarrow> p1
          | Some (x # xs) \<Rightarrow> dict_update p1 (x # xs)))"

text \<open>\<open>emit_update\<close>; \<open>clock\<close> is the reading of \<open>time.time()\<close> that refreshes the
  heartbeat.\<close>

definition emit_update :: "pylib \<Rightarrow> string \<Rightarrow> string \<Rightarrow> real \<Rightarrow> AgentRuntime \<Rightarrow> AgentTask \<Rightarrow> string \<Rightarrow> pydict option \<Rightarrow> pydict option \<Rightarrow> journals \<Rightarrow> (error + unit) \<times> AgentRuntime \<times> journals" where
  "emit_update L now uuid clock rt task message progress extra logs =
     (case enforce_policy (emit_payload rt task message progress extra) of
        Inl e \<Rightarrow> (Inl e, rt, logs)
      | Inr payload \<Rightarrow>
          (case rt_append_event L now uuid task ''AGENT_UPDATE'' payload logs of
             (Inl e, logs') \<Rightarrow> (Inl e, rt, logs')
           | (Inr u, logs') \<Rightarrow> (Inr (), rt\<lparr>last_heartbeat_at := Some clock\<rparr>, logs')))"

definition complete_payload :: "AgentRuntime \<Rightarrow> AgentResult \<Rightarrow> pydict" where
  "complete_payload rt result =
     [(''task_id'', JStr (r_task_id result)),
      (''agent_id'', JStr (agent_id rt)),
      (''agent_type'', JStr (agent_type rt)),
      (''outcome'', JStr (r_outcome result)),
      (''artifacts'', JList (r_artifacts result)),
      (''notes'', opt_str (r_notes result)),
      (''next_actions'',
         (case r_next_actions result of None \<Rightarrow> JNull | Some acts \<Rightarrow> JList (map JObj acts)))]"

text \<open>\<open>complete_task\<close> and \<open>fail_task\<close> work on the log and on the registry; \<open>now\<close> stamps
  the event and \<open>now'\<close> the task.\<close>

definition complete_task :: "pylib \<Rightarrow> string \<Rightarrow> string \<Rightarrow> string \<Rightarrow> AgentRuntime \<Rightarrow> AgentTask \<Rightarrow> AgentResult \<Rightarrow> journals \<Rightarrow> pydict list \<Rightarrow> (error + pydict) \<times> journals \<times> pydict list" where
  "complete_task L now uuid now' rt task result logs tasks =
     (case enforce_policy (complete_payload rt result) of
        Inl e \<Rightarrow> (Inl e, logs, tasks)
      | Inr payload \<Rightarrow>
          (case rt_append_event L now uuid task ''AGENT_RESULT'' payload logs of
             (Inl e, logs') \<Rightarrow> (Inl e, logs', tasks)
           | (Inr u, logs') \<Rightarrow>
               (case update_task now' (t_id task)
                       [(''status'', JStr ''COMPLETED''),
                        (''outputs'', JObj [(''result'', JObj payload)])] tasks of
                  (r, tasks') \<Rightarrow> (r, logs', tasks'))))"

definition fail_payload :: "AgentRuntime \<Rightarrow> AgentError \<Rightarrow> pydict" where
  "fail_payload rt err =
     [(''task_id'', JStr (e_task_id err)),
      (''agent_id'', JStr (agent_id rt)),
      (''agent_type'', JStr (agent_type rt)),
      (''outcome'', JStr ''failed''),
      (''error'', JObj (to_payload err))]"

definition fail_task :: "pylib \<Rightarrow> string \<Rightarrow> string \<Rightarrow> string \<Rightarrow> AgentRuntime \<Rightarrow> AgentTask \<Rightarrow> AgentError \<Rightarrow> journals \<Rightarrow> pydict list \<Rightarrow> (error + pydict) \<times> journals \<times> pydict list" where
  "fail_task L now uuid now' rt task err logs tasks =
     (case enforce_policy (fail_payload rt err) of
        Inl e \<Rightarrow> (Inl e, logs, tasks)
      | Inr payload \<Rightarrow>
          (case rt_append_event L now uuid task ''AGENT_RESULT'' payload logs of
             (Inl e, logs') \<Rightarrow> (Inl e, logs', tasks)
           | (Inr u, logs') \<Rightarrow>
               (case update_task now' (t_id task)
                       [(''status'', JStr ''FAILED''),
                        (''outputs'', JObj [(''error'', JObj (to_payload err))])] tasks of
                  (r, tasks') \<Rightarrow> (r, logs', tasks'))))"

section \<open>Claiming a task (\<open>AgentRuntime.poll_next_task\<close>)\<close>

text \<open>\<open>node.get("attempt", 0) + 1\<close>: an integer or a boolean can be added to; any other
  value raises \<open>TypeError\<close>.\<close>

definition attempt_next :: "pydict \<Rightarrow> error + json" where
  "attempt_next node =
     (case get_default node ''attempt'' (JInt 0) of
        JInt n \<Rightarrow> Inr (JInt (n + 1))
      | JBool b \<Rightarrow> Inr (JInt ((if b then 1 else 0) + 1))
      | _ \<Rightarrow> Inl TypeError)"

text \<open>\<open>_to_agent_task\<close>.\<close>

definition to_agent_task :: "pydict \<Rightarrow> error + AgentTask" where
  "to_agent_task node =
     (case map_of node ''id'' of
        None \<Rightarrow> Inl (KeyError ''id'')
      | Some i \<Rightarrow>
          Inr \<lparr>t_id = i,
               t_type = get_default node ''type'' (JStr ''unknown''),
               t_status = get_default node ''status'' (JStr ''UNKNOWN''),
               t_owner = get_none node ''owner'',
               t_priority = get_default node ''priority'' (JInt 0),
               t_inputs = get_default node ''inputs'' (JObj []),
               t_context = get_default node ''context'' (JObj []),
               t_metadata = get_default node ''metadata'' (JObj []),
               t_attempt = get_default node ''attempt'' (JInt 0)\<rparr>)"

text \<open>
  \<open>poll_next_task\<close> makes two calls to the store, each of which loads the registry anew.
  \<open>poll_select\<close> is the first: \<open>list_active({"PENDING"})\<close> and the search of its result, in
  order, for the first node whose type is the agent's. \<open>poll_commit\<close> is the second:
  \<open>update_task\<close> on the id of the node found, with the attempt counted from that node as it
  was read, and the conversion of the updated node. \<open>poll_next_task\<close> runs one after the other
  on the same registry.
\<close>

definition poll_select :: "AgentRuntime \<Rightarrow> pydict list \<Rightarrow> error + pydict option" where
  "poll_select rt tasks =
     (case list_active (Some [''PENDING'']) tasks of
        Inl e \<Rightarrow> Inl e
      | Inr active \<Rightarrow> Inr (find (\<lambda>node. get_none node ''type'' = JStr (agent_type rt)) active))"

definition poll_commit :: "string \<Rightarrow> AgentRuntime \<Rightarrow> pydict \<Rightarrow> pydict list \<Rightarrow> (error + AgentTask option) \<times> pydict list" where
  "poll_commit now rt node tasks =
     (case map_of node ''id'' of
        None \<Rightarrow> (Inl (KeyError ''id''), tasks)
      | Some i \<Rightarrow>
          (case attempt_next node of
             Inl e \<Rightarrow> (Inl e, tasks)
           | Inr a \<Rightarrow>
               (case update_task now i
                       [(''status'', JStr ''IN_PROGRESS''),
                        (''owner'', JStr (agent_id rt)),
                        (''attempt'', a)] tasks of
                  (Inl e, tasks') \<Rightarrow> (Inl e, tasks')
                | (Inr claimed, tasks') \<Rightarrow>
                    (case to_agent_task claimed of
                       Inl e \<Rightarrow> (Inl e, tasks')
                     | Inr t \<Rightarrow> (Inr (Some t), tasks')))))"

definition poll_next_task :: "string \<Rightarrow> AgentRuntime \<Rightarrow> pydict list \<Rightarrow> (error + AgentTask option) \<times> pydict list" where
  "poll_next_task now rt tasks =
     (case poll_select rt tasks of
        Inl e \<Rightarrow> (Inl e, tasks)
      | Inr None \<Rightarrow> (Inr None, tasks)
      | Inr (Some node) \<Rightarrow> poll_commit now rt node tasks)"

text \<open>The node \<open>update_task\<close> leaves for the patch of a claim by \<open>own\<close>, the attempt
  read having been \<open>a\<close>.\<close>

definition claimed_node :: "string \<Rightarrow> string \<Rightarrow> int \<Rightarrow> pydict \<Rightarrow> pydict" where
  "claimed_node now own a node =
     AList.update ''updated_at'' (JStr now)
       (dict_update node [(''status'', JStr ''IN_PROGRESS''), (''owner'', JStr own),
                          (''attempt'', JInt (a + 1))])"

text \<open>A task a runtime may claim: it is pending and of the runtime's type.\<close>

definition eligible :: "AgentRuntime \<Rightarrow> pydict \<Rightarrow> bool" where
  "eligible rt node =
     (get_none node ''status'' = JStr ''PENDING'' \<and> get_none node ''type'' = JStr (agent_type rt))"

section \<open>Rolling summary (\<open>log/summarize.py\<close>)\<close>

record summary =
  s_conversation_id :: string
  content :: string
  summary_ref :: string

definition stringify_event :: "pylib \<Rightarrow> pydict \<Rightarrow> string" where
  "stringify_event L event =
     (case get_none event ''payload'' of
        JStr s \<Rightarrow> s
      | JObj d \<Rightarrow> dumps_sorted L (JObj d)
      | _ \<Rightarrow> (if truthy (get_none event ''message'')
              then fmt L (get_none event ''message'')
              else ''(no payload)''))"

text \<open>
  The groups are a \<open>defaultdict(list)\<close> keyed by the event's type. As dictionary keys,
  \<open>True\<close> and \<open>1\<close> (and \<open>False\<close> and \<open>0\<close>) are the same key, kept as first inserted; a list or
  dictionary cannot be a key.
\<close>

definition key_eq :: "json \<Rightarrow> json \<Rightarrow> bool" where
  "key_eq a b = (a = b \<or> (num_of a \<noteq> None \<and> num_of a = num_of b))"

fun add_group :: "json \<Rightarrow> string \<Rightarrow> (json \<times> string list) list \<Rightarrow> (json \<times> string list) list" where
  "add_group g item [] = [(g, [item])]"
| "add_group g item ((k, items) # rest) =
     (if key_eq k g then (k, items @ [item]) # rest else (k, items) # add_group g item rest)"

fun group_events :: "pylib \<Rightarrow> pydict list \<Rightarrow> (json \<times> string list) list \<Rightarrow> error + (json \<times> string list) list" where
  "group_events L [] groups = Inr groups"
| "group_events L (event # rest) groups =
     (let g = get_default event ''type'' (JStr ''UNKNOWN'') in
      if \<not> hashable g then Inl TypeError
      else group_events L rest (add_group g (stringify_event L event) groups))"

text \<open>
  \<open>sorted(groups.keys())\<close>: strings are ordered as strings and numbers as numbers; two or
  more keys that are not all strings or all numbers cannot be compared and raise
  \<open>TypeError\<close>.
\<close>

fun is_str :: "json \<Rightarrow> bool" where
  "is_str (JStr s) = True"
| "is_str v = False"

fun str_of :: "json \<Rightarrow> string" where
  "str_of (JStr s) = s"
| "str_of v = []"

fun num_val :: "json \<Rightarrow> int" where
  "num_val (JInt n) = n"
| "num_val (JBool b) = (if b then 1 else 0)"
| "num_val v = 0"

definition sorted_keys :: "json list \<Rightarrow> error + json list" where
  "sorted_keys ks =
     (if length ks \<le> 1 then Inr ks
      else if list_all is_str ks then Inr (sort_key str_of ks)
      else if list_all (\<lambda>k. num_of k \<noteq> None) ks then Inr (sort_key num_val ks)
      else Inl TypeError)"

definition group_lines :: "pylib \<Rightarrow> (json \<times> string list) list \<Rightarrow> json \<Rightarrow> string list" where
  "group_lines L groups g =
     (''### '' @ fmt L g)
       # map (\<lambda>item. ''- '' @ item) (case map_of groups g of None \<Rightarrow> [] | Some items \<Rightarrow> items)"

definition rolling_summary :: "pylib \<Rightarrow> string \<Rightarrow> pydict list \<Rightarrow> error + summary" where
  "rolling_summary L conv events =
     (case group_events L events [] of
        Inl e \<Rightarrow> Inl e
      | Inr groups \<Rightarrow>
          (case sorted_keys (map fst groups) of
             Inl e \<Rightarrow> Inl e
           | Inr ks \<Rightarrow>
               (let lines = concat (map (group_lines L groups) ks);
                    text = py_strip L (join [CHR 0x0A] lines)
                in Inr \<lparr>s_conversation_id = conv, content = text,
                        summary_ref = sha256_hex L text\<rparr>)))"

text \<open>
  The summary text as the specification words it, for events whose type is a string:
  the events grouped by type, the types in lexicographic order, the events of one type
  in their original order, each rendered as \<open>"- "\<close> and its stringified payload or
  message under the heading \<open>"### "\<close> and the type. It is compared with
  \<open>rolling_summary\<close> below.
\<close>

definition tag_of :: "pydict \<Rightarrow> string" where
  "tag_of event = str_of (get_default event ''type'' (JStr ''UNKNOWN''))"

definition summary_text_spec :: "pylib \<Rightarrow> pydict list \<Rightarrow> string" where
  "summary_text_spec L events =
     py_strip L (join [CHR 0x0A]
       (concat (map (\<lambda>g. (''### '' @ g)
                          # map (\<lambda>e. ''- '' @ stringify_event L e)
                              (filter (\<lambda>e. tag_of e = g) events))
                    (sort (remdups (map tag_of events))))))"

text \<open>The items collected so far under a key of the groups.\<close>

definition items_of :: "(json \<times> string list) list \<Rightarrow> json \<Rightarrow> string list" where
  "items_of groups g = (case map_of groups g of None \<Rightarrow> [] | Some items \<Rightarrow> items)"

text \<open>\<open>persist_summary\<close> overwrites the conversation's summary file; the files are modelled
  as a map from the conversation id to the text written. The write raises \<open>OSError\<close>, and
  leaves the files as they were, when the file system cannot open the path.\<close>

type_synonym summaries = "string \<Rightarrow> string option"

definition summary_path :: "string \<Rightarrow> string" where
  "summary_path name = ''summaries/'' @ name @ ''.md''"

definition persist_summary :: "pylib \<Rightarrow> string \<Rightarrow> summary \<Rightarrow> summaries \<Rightarrow> error + summaries" where
  "persist_summary L conv s files =
     (if \<not> can_open L (summary_path conv) then Inl OSError
      else Inr (files(conv \<mapsto> ''<!-- summary_ref:'' @ summary_ref s @ '' -->'' @ [CHR 0x0A]
                            @ content s @ [CHR 0x0A])))"

section \<open>Controller gate (\<open>orchestrator/controller_runner.py\<close>)\<close>

definition SPEAK_HINTS :: "string set" where
  "SPEAK_HINTS = {''user_waiting'', ''task_completed'', ''agent_failed''}"

definition TRIGGER_EVENT_TYPES :: "string set" where
  "TRIGGER_EVENT_TYPES = {''ERROR'', ''AGENT_RESULT''}"

record decision =
  speak_now :: bool
  d_actions :: "pydict list"
  d_notes :: string

text \<open>The loop of \<open>decide\<close> over the last five events, newest first: it stops at the first
  event whose type is a trigger; testing membership hashes the type.\<close>

fun scan_triggers :: "pydict list \<Rightarrow> error + bool" where
  "scan_triggers [] = Inr False"
| "scan_triggers (event # rest) =
     (let t = get_none event ''type'' in
      if \<not> hashable t then Inl TypeError
      else if t \<in> JStr ` TRIGGER_EVENT_TYPES then Inr True
      else scan_triggers rest)"

definition decide :: "string list option \<Rightarrow> pydict list \<Rightarrow> error + decision" where
  "decide hints recent_events =
     (let hs = (case hints of None \<Rightarrow> [] | Some h \<Rightarrow> h);
          speak = (if list_ex (\<lambda>h. h \<in> SPEAK_HINTS) hs then Inr True
                   else scan_triggers (rev (slice_from (- 5) recent_events)))
      in (case speak of
            Inl e \<Rightarrow> Inl e
          | Inr sp \<Rightarrow>
              Inr \<lparr>speak_now = sp,
                   d_actions =
                     [[(''kind'', JStr ''reflect''),
                       (''attention_hints'', JList (map JStr hs)),
                       (''recent_event_types'',
                          JList (map (\<lambda>e. get_none e ''type'') (slice_from (- 3) recent_events)))]],
                   d_notes = ''Auto-gated via ControllerRunner''\<rparr>))"

definition render_payload :: "pylib \<Rightarrow> json \<Rightarrow> string" where
  "render_payload L payload =
     (case payload of
        JNull \<Rightarrow> ''(no payload)''
      | JStr s \<Rightarrow> s
      | _ \<Rightarrow> dumps_sorted_unicode L payload)"

text \<open>One line of the context window.\<close>

definition render_line :: "pylib \<Rightarrow> pydict \<Rightarrow> string" where
  "render_line L event =
     ''- ['' @ fmt L (get_default event ''type'' (JStr ''EVENT'')) @ ''] ''
       @ render_payload L (get_none event ''payload'')"

definition summary_section :: "string \<Rightarrow> summary \<Rightarrow> string" where
  "summary_section conv s =
     [CHR 0x0A] @ ''### Summaries'' @ [CHR 0x0A] @ ''- Ref '' @ summary_ref s
       @ '' (see summaries/'' @ conv @ ''.md)''"

text \<open>
  \<open>build_context_slice\<close> works on the log and on the summary files. The summary is
  persisted before the \<open>SUMMARY_REFRESH\<close> event is appended, so an append that raises
  leaves the new summary file behind.
\<close>

definition build_context_slice :: "pylib \<Rightarrow> string \<Rightarrow> string \<Rightarrow> string \<Rightarrow> pydict list \<Rightarrow> int \<Rightarrow> journals \<Rightarrow> summaries \<Rightarrow> (error + string) \<times> journals \<times> summaries" where
  "build_context_slice L now uuid conv events max_events logs files =
     (let kept = slice_from (- max_events) events;
          trimmed = slice_to (- max_events) events;
          lines = map (render_line L) kept
      in if trimmed = [] then (Inr (join [CHR 0x0A] lines), logs, files)
         else (case rolling_summary L conv trimmed of
                 Inl e \<Rightarrow> (Inl e, logs, files)
               | Inr s \<Rightarrow>
                   (case persist_summary L conv s files of
                      Inl e \<Rightarrow> (Inl e, logs, files)
                    | Inr files' \<Rightarrow>
                    (case append_event L now uuid
                            [(''conversation_id'', JStr conv),
                             (''type'', JStr ''SUMMARY_REFRESH''),
                             (''payload'', JObj [(''summary_ref'', JStr (summary_ref s))]),
                             (''visibility'', JStr ''internal'')] logs of
                       (Inl e, logs') \<Rightarrow> (Inl e, logs', files')
                     | (Inr i, logs') \<Rightarrow>
                         (Inr (join [CHR 0x0A] lines @ summary_section conv s), logs', files')))))"

section \<open>Sample values\<close>

text \<open>Concrete library functions, a runtime and a claimed task, for the closed instances of
  the theorems below. The file system of \<open>lib0\<close> opens the paths directly below \<open>logs\<close> and
  \<open>summaries\<close>, those with a single separator.\<close>

definition lib0 :: pylib where
  "lib0 = \<lparr>py_str = (\<lambda>v. ''<value>''), py_strip = (\<lambda>s. s),
            dumps_sorted = (\<lambda>v. ''<json>''), dumps_sorted_unicode = (\<lambda>v. ''<json>''),
            sha256_hex = (\<lambda>s. ''<sha256>''),
            can_open = (\<lambda>p. length (filter (\<lambda>c. c = CHR ''/'') p) \<le> 1)\<rparr>"

text \<open>Three events of the conversation \<open>alpha\<close>, appended to an empty log at the clock
  readings \<open>n1\<close>, \<open>n2\<close> and \<open>n3\<close>.\<close>

definition three_appends :: "string \<Rightarrow> string \<Rightarrow> string \<Rightarrow> journals" where
  "three_appends n1 n2 n3 =
     snd (append_event lib0 n3 ''u3''
            [(''conversation_id'', JStr ''alpha''), (''type'', JStr ''AGENT_RESULT'')]
       (snd (append_event lib0 n2 ''u2''
            [(''conversation_id'', JStr ''alpha''), (''type'', JStr ''AGENT_UPDATE'')]
       (snd (append_event lib0 n1 ''u1''
            [(''conversation_id'', JStr ''alpha''), (''type'', JStr ''USER_MESSAGE'')]
            (\<lambda>k. None))))))"

definition rt0 :: AgentRuntime where
  "rt0 = \<lparr>agent_id = ''coder-1'', agent_type = ''coder'', heartbeat_interval = 15,
           last_heartbeat_at = None\<rparr>"

definition task0 :: AgentTask where
  "task0 = \<lparr>t_id = JStr ''task-1'', t_type = JStr ''coder'', t_status = JStr ''IN_PROGRESS'',
             t_owner = JStr ''coder-1'', t_priority = JInt 5, t_inputs = JObj [],
             t_context = JObj [], t_metadata = JObj [(''conversation_id'', JStr ''conv-1'')],
             t_attempt = JInt 1\<rparr>"

definition events_a :: "pydict list" where
  "events_a = [[(''type'', JStr ''USER_MESSAGE''), (''payload'', JObj [(''text'', JStr ''hi'')])],
               [(''type'', JStr ''AGENT_UPDATE''), (''payload'', JObj [(''state'', JStr ''working'')])]]"

definition event_result :: pydict where
  "event_result = [(''type'', JStr ''AGENT_RESULT''), (''payload'', JObj [(''summary'', JStr ''done'')])]"

definition node_coder :: pydict where
  "node_coder = [(''id'', JStr ''task-1''), (''type'', JStr ''coder''), (''status'', JStr ''PENDING''),
                 (''owner'', JNull), (''metadata'', JObj [(''conversation_id'', JStr ''conv-rt'')]),
                 (''priority'', JInt 1), (''attempt'', JInt 0)]"

definition node_search :: pydict where
  "node_search = [(''id'', JStr ''task-2''), (''type'', JStr ''search''), (''status'', JStr ''PENDING''),
                  (''owner'', JNull), (''priority'', JInt 5), (''attempt'', JInt 0)]"

definition rt_writer :: AgentRuntime where
  "rt_writer = \<lparr>agent_id = ''writer-1'', agent_type = ''writer'', heartbeat_interval = 15,
                 last_heartbeat_at = None\<rparr>"

definition rt_a :: AgentRuntime where
  "rt_a = \<lparr>agent_id = ''coder-A'', agent_type = ''coder'', heartbeat_interval = 15,
            last_heartbeat_at = None\<rparr>"

definition rt_b :: AgentRuntime where
  "rt_b = \<lparr>agent_id = ''coder-B'', agent_type = ''coder'', heartbeat_interval = 15,
            last_heartbeat_at = None\<rparr>"

definition draft_b :: pydict where
  "draft_b = [(''id'', JStr ''task-b''), (''type'', JStr ''coder''), (''status'', JStr ''PENDING''),
              (''created_at'', JStr ''2024-05-01T10:00:05Z'')]"

definition draft_a :: pydict where
  "draft_a = [(''id'', JStr ''task-a''), (''type'', JStr ''coder''), (''status'', JStr ''PENDING''),
              (''created_at'', JStr ''2024-05-01T10:00:01Z'')]"

definition events_s :: "pydict list" where
  "events_s = [[(''type'', JStr ''USER_MESSAGE''), (''payload'', JStr ''Hello'')],
               [(''type'', JStr ''AGENT_UPDATE''), (''payload'', JStr ''working'')],
               [(''type'', JStr ''USER_MESSAGE''), (''payload'', JStr ''Status?'')]]"

section \<open>The store: creation and update\<close>

lemma map_of_dict_update_other:
  "k \<notin> fst ` set patch \<Longrightarrow> map_of (dict_update d patch) k = map_of d k"
proof (induction patch arbitrary: d)
  case Nil
  then show ?case by (simp add: dict_update_def)
next
  case (Cons kv patch)
  have "map_of (dict_update (AList.update (fst kv) (snd kv) d) patch) k
        = map_of (AList.update (fst kv) (snd kv) d) k"
    using Cons by simp
  moreover have "fst kv \<noteq> k" using Cons.prems by auto
  ultimately show ?case by (simp add: dict_update_def update_conv')
qed

lemma py_eq_str: "py_eq v (JStr s) = (v = JStr s)"
  by (cases v) auto

lemma py_eq_refl: "py_eq v v"
proof (induction v)
  case (JList xs)
  then show ?case by (simp add: list_all2_same)
next
  case (JObj d)
  have "(case map_of d k of None \<Rightarrow> False
         | Some x \<Rightarrow> (case map_of d k of None \<Rightarrow> False | Some y \<Rightarrow> py_eq x y))"
    if "k \<in> set (map fst d)" for k
  proof -
    from that obtain x where x: "map_of d k = Some x"
      by (metis domD dom_map_of_conv_image_fst set_map)
    then have "(k, x) \<in> set d" by (rule map_of_SomeD)
    then have "py_eq x x" using JObj by (auto simp: snds.simps)
    then show ?thesis using x by simp
  qed
  then show ?case by (simp add: list_all_iff)
qed simp_all

lemma update_scan_ids:
  "''id'' \<notin> fst ` set patch \<Longrightarrow>
   map (\<lambda>n. map_of n ''id'') (snd (update_scan now task_id patch seen tasks))
     = map (\<lambda>n. map_of n ''id'') (seen @ tasks)"
proof (induction tasks arbitrary: seen)
  case Nil
  then show ?case by simp
next
  case (Cons node rest)
  show ?case
  proof (cases "map_of node ''id''")
    case None
    then show ?thesis by simp
  next
    case (Some i)
    show ?thesis
    proof (cases "py_eq i task_id")
      case True
      then show ?thesis
        using Some Cons.prems
        by (simp add: Let_def update_conv' map_of_dict_update_other)
    next
      case False
      then show ?thesis
        using Some Cons.IH [OF Cons.prems, of "seen @ [node]"] by simp
    qed
  qed
qed

text \<open>
  Claim C8, as amended. A draft that carries \<open>"type"\<close> and \<open>"status"\<close> is stored as a new
  last node of the registry and returned. Its id is the draft's id when the draft has one
  and \<open>"task-"\<close> followed by the fresh uuid otherwise; \<open>updated_at\<close> is the clock reading of
  the call, and \<open>created_at\<close> is the draft's own \<open>created_at\<close> when it has one and that same
  clock reading otherwise.
\<close>

theorem create_task_id_and_timestamps:
  assumes "map_of task ''type'' = Some ty" and "map_of task ''status'' = Some st"
  shows "\<exists>node. create_task now uuid task tasks = (Inr node, tasks @ [node])
           \<and> map_of node ''id'' = Some (get_default task ''id'' (JStr (''task-'' @ uuid)))
           \<and> map_of node ''updated_at'' = Some (JStr now)
           \<and> map_of node ''created_at'' = Some (get_default task ''created_at'' (JStr now))"
  using assms by (simp add: create_task_def Let_def)

theorem create_task_id_and_timestamps_witness:
  "\<exists>node. create_task ''2024-05-01T10:00:00Z'' ''0af3''
            [(''type'', JStr ''analysis''), (''status'', JStr ''PENDING'')] []
          = (Inr node, [] @ [node])
       \<and> map_of node ''id'' = Some (JStr ''task-0af3'')
       \<and> map_of node ''updated_at'' = Some (JStr ''2024-05-01T10:00:00Z'')
       \<and> map_of node ''created_at'' = Some (JStr ''2024-05-01T10:00:00Z'')"
  using create_task_id_and_timestamps
    [of "[(''type'', JStr ''analysis''), (''status'', JStr ''PENDING'')]"
        "JStr ''analysis''" "JStr ''PENDING''" "''2024-05-01T10:00:00Z''" "''0af3''" "[]"]
  by (simp add: get_default_def)

text \<open>
  Claim C8 as stated fails: a draft that supplies its own \<open>created_at\<close> keeps it, while
  \<open>updated_at\<close> is the time of the call, so the two differ on creation.
\<close>

theorem create_task_timestamps_counterexample:
  "(case fst (create_task ''2024-05-01T10:00:00Z'' ''0af3''
               [(''type'', JStr ''analysis''), (''status'', JStr ''PENDING''),
                (''created_at'', JStr ''2020-01-01T00:00:00Z'')] []) of
      Inl e \<Rightarrow> False
    | Inr node \<Rightarrow> map_of node ''created_at'' = Some (JStr ''2020-01-01T00:00:00Z'')
                 \<and> map_of node ''updated_at'' = Some (JStr ''2024-05-01T10:00:00Z'')
                 \<and> map_of node ''created_at'' \<noteq> map_of node ''updated_at'')"
  by (simp add: create_task_def get_default_def get_none_def Let_def)

text \<open>
  Claim C9, as amended. A call \<open>update_task(task_id, **patch)\<close> whose patch has no \<open>"id"\<close>
  key leaves the id of every task of the registry as it was, in the same storage order,
  whether the call succeeds or raises.
\<close>

theorem update_task_keeps_ids:
  assumes "''id'' \<notin> fst ` set patch"
  shows "map (\<lambda>n. map_of n ''id'') (snd (update_task now task_id patch tasks))
           = map (\<lambda>n. map_of n ''id'') tasks"
  using update_scan_ids [OF assms, of now task_id "[]" tasks] by (simp add: update_task_def)

theorem update_task_keeps_ids_witness:
  "''id'' \<notin> fst ` set [(''status'', JStr ''IN_PROGRESS'')]
   \<and> map (\<lambda>n. map_of n ''id'')
         (snd (update_task ''2024-05-01T10:00:00Z'' (JStr ''task-b'')
                 [(''status'', JStr ''IN_PROGRESS'')]
                 [[(''id'', JStr ''task-a''), (''status'', JStr ''PENDING'')],
                  [(''id'', JStr ''task-b''), (''status'', JStr ''PENDING'')]]))
       = [Some (JStr ''task-a''), Some (JStr ''task-b'')]"
proof -
  have h: "''id'' \<notin> fst ` set [(''status'', JStr ''IN_PROGRESS'')]" by simp
  show ?thesis
    using h update_task_keeps_ids [OF h, of "''2024-05-01T10:00:00Z''" "JStr ''task-b''"
      "[[(''id'', JStr ''task-a''), (''status'', JStr ''PENDING'')],
        [(''id'', JStr ''task-b''), (''status'', JStr ''PENDING'')]]"]
    by simp
qed

text \<open>
  Claim C9 as stated fails: the patch is merged into the node key by key, \<open>"id"\<close>
  included, so a patch that names \<open>"id"\<close> renames the task.
\<close>

theorem update_task_id_counterexample:
  "map (\<lambda>n. map_of n ''id'')
     (snd (update_task ''2024-05-01T10:00:00Z'' (JStr ''task-a'') [(''id'', JStr ''task-z'')]
             [[(''id'', JStr ''task-a''), (''status'', JStr ''PENDING'')]]))
   = [Some (JStr ''task-z'')]
   \<and> map (\<lambda>n. map_of n ''id'') [[(''id'', JStr ''task-a''), (''status'', JStr ''PENDING'')]]
       = [Some (JStr ''task-a'')]"
  by (simp add: update_task_def dict_update_def Let_def)

section \<open>The event log: append and tail\<close>

lemma append_event_ok:
  assumes "get_none event ''conversation_id'' = JStr conv" and "conv \<noteq> []"
    and "can_open L (log_path conv)"
  shows "snd (append_event L now uuid event logs)
         = logs(conv \<mapsto> journal logs conv @ [entry_of now uuid (JStr conv) event])"
  using assms by (simp add: append_event_def Let_def fmt_def)

lemma journal_upd_same: "journal (logs(k \<mapsto> es)) k = es"
  by (simp add: journal_def)

lemma tail_last3: "tail conv 3 (logs(conv \<mapsto> old @ [a, b, c])) = [a, b, c]"
  by (simp add: tail_def slice_from_def)

lemma entry_of_timestamp:
  "map_of (entry_of now uuid conv event) ''timestamp'' = Some (JStr now)"
  by (simp add: entry_of_def update_conv')

lemma entry_of_other:
  "k \<noteq> ''timestamp'' \<Longrightarrow> k \<noteq> ''id'' \<Longrightarrow> map_of event ''conversation_id'' = Some conv \<Longrightarrow>
   map_of (entry_of now uuid conv event) k = map_of event k"
  by (simp add: entry_of_def update_conv' setdefault_def split: option.splits)

lemma entry_of_id:
  "map_of (entry_of now uuid conv event) ''id''
   = Some (get_default event ''id'' (JStr (''evt-'' @ uuid)))"
  by (simp add: entry_of_def update_conv' setdefault_def get_default_def split: option.splits)

lemma append3_tail:
  assumes "conv \<noteq> []" and "can_open L (log_path conv)"
    and "map_of e1 ''conversation_id'' = Some (JStr conv)"
    and "map_of e2 ''conversation_id'' = Some (JStr conv)"
    and "map_of e3 ''conversation_id'' = Some (JStr conv)"
  shows "tail conv 3 (snd (append_event L n3 u3 e3 (snd (append_event L n2 u2 e2
            (snd (append_event L n1 u1 e1 logs))))))
         = [entry_of n1 u1 (JStr conv) e1, entry_of n2 u2 (JStr conv) e2,
            entry_of n3 u3 (JStr conv) e3]"
proof -
  have g: "get_none e1 ''conversation_id'' = JStr conv"
    "get_none e2 ''conversation_id'' = JStr conv"
    "get_none e3 ''conversation_id'' = JStr conv"
    using assms by (simp_all add: get_none_def)
  show ?thesis
    by (simp add: append_event_ok [OF g(1) assms(1,2)] append_event_ok [OF g(2) assms(1,2)]
        append_event_ok [OF g(3) assms(1,2)] journal_upd_same tail_last3)
qed

text \<open>A conversation id that names a directory nobody created: the journal cannot be
  opened, \<open>append_event\<close> raises and writes nothing, and \<open>tail\<close> finds no journal.\<close>

lemma append_event_missing_directory:
  "append_event lib0 ''2024-05-01T10:00:00Z'' ''u1''
     [(''conversation_id'', JStr ''x/y''), (''type'', JStr ''USER_MESSAGE'')] (\<lambda>k. None)
   = (Inl OSError, (\<lambda>k. None))"
  by (simp add: append_event_def get_none_def fmt_def log_path_def lib0_def Let_def)

text \<open>
  Claim C7, as amended. Three events of the conversation \<open>conv\<close> (a non-empty string
  without a path separator, whose journal file can be opened) are appended in the order \<open>e1\<close>, \<open>e2\<close>, \<open>e3\<close>, at the clock
  readings \<open>n1\<close>, \<open>n2\<close>, \<open>n3\<close>, to any log. Then \<open>tail(conv, 3)\<close> returns the three entries
  written, in append order: each agrees with its event on every field other than \<open>id\<close>
  and \<open>timestamp\<close>, its id is the event's own or \<open>"evt-"\<close> with a fresh uuid, and its
  timestamp is the reading of the wall clock taken at its append, whatever the order of
  those readings. For a conversation without a journal, \<open>tail\<close> returns the empty list.
\<close>

theorem append_tail_order:
  assumes "conv \<noteq> []" and "can_open L (log_path conv)" and "CHR ''/'' \<notin> set conv"
    and "map_of e1 ''conversation_id'' = Some (JStr conv)"
    and "map_of e2 ''conversation_id'' = Some (JStr conv)"
    and "map_of e3 ''conversation_id'' = Some (JStr conv)"
    and "logs3 = snd (append_event L n3 u3 e3 (snd (append_event L n2 u2 e2
                   (snd (append_event L n1 u1 e1 logs)))))"
  shows "length (tail conv 3 logs3) = 3
       \<and> (\<forall>k. k \<noteq> ''timestamp'' \<and> k \<noteq> ''id'' \<longrightarrow>
             map (\<lambda>e. map_of e k) (tail conv 3 logs3) = map (\<lambda>e. map_of e k) [e1, e2, e3])
       \<and> map (\<lambda>e. map_of e ''id'') (tail conv 3 logs3)
           = [Some (get_default e1 ''id'' (JStr (''evt-'' @ u1))),
              Some (get_default e2 ''id'' (JStr (''evt-'' @ u2))),
              Some (get_default e3 ''id'' (JStr (''evt-'' @ u3)))]
       \<and> map (\<lambda>e. map_of e ''timestamp'') (tail conv 3 logs3)
           = [Some (JStr n1), Some (JStr n2), Some (JStr n3)]
       \<and> map timestamp_of (tail conv 3 logs3) = [n1, n2, n3]
       \<and> (other conv' = None \<longrightarrow> tail conv' limit other = [])"
proof -
  have t: "tail conv 3 logs3
           = [entry_of n1 u1 (JStr conv) e1, entry_of n2 u2 (JStr conv) e2,
              entry_of n3 u3 (JStr conv) e3]"
    using append3_tail [OF assms(1,2,4-6)] assms(7) by simp
  have none: "other conv' = None \<longrightarrow> tail conv' limit other = []"
    by (simp add: tail_def)
  have fields: "\<forall>k. k \<noteq> ''timestamp'' \<and> k \<noteq> ''id'' \<longrightarrow>
      map (\<lambda>e. map_of e k) (tail conv 3 logs3) = map (\<lambda>e. map_of e k) [e1, e2, e3]"
    using assms(4-6) by (simp add: t entry_of_other)
  have ids: "map (\<lambda>e. map_of e ''id'') (tail conv 3 logs3)
           = [Some (get_default e1 ''id'' (JStr (''evt-'' @ u1))),
              Some (get_default e2 ''id'' (JStr (''evt-'' @ u2))),
              Some (get_default e3 ''id'' (JStr (''evt-'' @ u3)))]"
    by (simp add: t entry_of_id)
  have stamps: "map timestamp_of (tail conv 3 logs3) = [n1, n2, n3]"
    by (simp add: t timestamp_of_def get_none_def entry_of_timestamp)
  have stored: "map (\<lambda>e. map_of e ''timestamp'') (tail conv 3 logs3)
           = [Some (JStr n1), Some (JStr n2), Some (JStr n3)]"
    by (simp add: t entry_of_timestamp)
  have len: "length (tail conv 3 logs3) = 3"
    by (simp add: t)
  show ?thesis
    using len fields ids stamps stored none by blast
qed

theorem append_tail_order_witness:
  "length (tail ''alpha'' 3
      (three_appends ''2024-05-01T10:00:00Z'' ''2024-05-01T10:00:01Z'' ''2024-05-01T10:00:02Z'')) = 3
   \<and> map (\<lambda>e. map_of e ''type'')
        (tail ''alpha'' 3
          (three_appends ''2024-05-01T10:00:00Z'' ''2024-05-01T10:00:01Z'' ''2024-05-01T10:00:02Z''))
      = [Some (JStr ''USER_MESSAGE''), Some (JStr ''AGENT_UPDATE''), Some (JStr ''AGENT_RESULT'')]
   \<and> map (\<lambda>e. map_of e ''id'')
        (tail ''alpha'' 3
          (three_appends ''2024-05-01T10:00:00Z'' ''2024-05-01T10:00:01Z'' ''2024-05-01T10:00:02Z''))
      = [Some (JStr ''evt-u1''), Some (JStr ''evt-u2''), Some (JStr ''evt-u3'')]
   \<and> map timestamp_of
        (tail ''alpha'' 3
          (three_appends ''2024-05-01T10:00:00Z'' ''2024-05-01T10:00:01Z'' ''2024-05-01T10:00:02Z''))
      = [''2024-05-01T10:00:00Z'', ''2024-05-01T10:00:01Z'', ''2024-05-01T10:00:02Z'']
   \<and> tail ''beta'' 3 (\<lambda>k. None) = []"
proof -
  let ?e1 = "[(''conversation_id'', JStr ''alpha''), (''type'', JStr ''USER_MESSAGE'')]"
  let ?e2 = "[(''conversation_id'', JStr ''alpha''), (''type'', JStr ''AGENT_UPDATE'')]"
  let ?e3 = "[(''conversation_id'', JStr ''alpha''), (''type'', JStr ''AGENT_RESULT'')]"
  let ?logs3 = "three_appends ''2024-05-01T10:00:00Z'' ''2024-05-01T10:00:01Z''
                  ''2024-05-01T10:00:02Z''"
  have c: "''alpha'' \<noteq> []" by simp
  have o: "can_open lib0 (log_path ''alpha'')"
    by (simp add: lib0_def log_path_def)
  have p: "CHR ''/'' \<notin> set ''alpha''" by simp
  have m: "map_of ?e1 ''conversation_id'' = Some (JStr ''alpha'')"
    "map_of ?e2 ''conversation_id'' = Some (JStr ''alpha'')"
    "map_of ?e3 ''conversation_id'' = Some (JStr ''alpha'')"
    by simp_all
  have l: "?logs3 = snd (append_event lib0 ''2024-05-01T10:00:02Z'' ''u3'' ?e3
          (snd (append_event lib0 ''2024-05-01T10:00:01Z'' ''u2'' ?e2
          (snd (append_event lib0 ''2024-05-01T10:00:00Z'' ''u1'' ?e1 (\<lambda>k. None))))))"
    by (simp add: three_appends_def)
  note inst = append_tail_order [OF c o p m l, where other = "\<lambda>k. None" and conv' = "''beta''"
      and limit = 3]
  have len: "length (tail ''alpha'' 3 ?logs3) = 3"
    using inst by blast
  have "\<forall>k. k \<noteq> ''timestamp'' \<and> k \<noteq> ''id'' \<longrightarrow>
      map (\<lambda>e. map_of e k) (tail ''alpha'' 3 ?logs3) = map (\<lambda>e. map_of e k) [?e1, ?e2, ?e3]"
    using inst by blast
  then have "map (\<lambda>e. map_of e ''type'') (tail ''alpha'' 3 ?logs3)
             = map (\<lambda>e. map_of e ''type'') [?e1, ?e2, ?e3]"
    by simp
  then have types: "map (\<lambda>e. map_of e ''type'') (tail ''alpha'' 3 ?logs3)
      = [Some (JStr ''USER_MESSAGE''), Some (JStr ''AGENT_UPDATE''), Some (JStr ''AGENT_RESULT'')]"
    by simp
  have "map (\<lambda>e. map_of e ''id'') (tail ''alpha'' 3 ?logs3)
           = [Some (get_default ?e1 ''id'' (JStr (''evt-'' @ ''u1''))),
              Some (get_default ?e2 ''id'' (JStr (''evt-'' @ ''u2''))),
              Some (get_default ?e3 ''id'' (JStr (''evt-'' @ ''u3'')))]"
    using inst by blast
  then have ids: "map (\<lambda>e. map_of e ''id'') (tail ''alpha'' 3 ?logs3)
      = [Some (JStr ''evt-u1''), Some (JStr ''evt-u2''), Some (JStr ''evt-u3'')]"
    by (simp add: get_default_def)
  have stamps: "map timestamp_of (tail ''alpha'' 3 ?logs3)
      = [''2024-05-01T10:00:00Z'', ''2024-05-01T10:00:01Z'', ''2024-05-01T10:00:02Z'']"
    using inst by blast
  have "(\<lambda>k. None) ''beta'' = None \<longrightarrow> tail ''beta'' 3 (\<lambda>k. None) = []"
    using inst by blast
  then have none: "tail ''beta'' 3 (\<lambda>k. None) = []"
    by simp
  show ?thesis
    using len types ids stamps none by blast
qed

text \<open>
  Claim C7 as stated fails: the timestamps need not be non-decreasing. Each append stamps
  the entry with the wall clock, rendered by \<open>isoformat\<close>, and nothing compares it with
  the entry before. When the clock is set back between two appends (here from second 05
  to second 01) the later entry carries the earlier timestamp. And the rendering leaves
  the fraction out when the microsecond is zero, so the readings 10:00:00.999999,
  10:00:01.000000 and 10:00:01.000001 of a clock that only advances give timestamps
  that, compared as the strings the log sorts by, go down from the second to the third.
\<close>

theorem append_tail_timestamps_counterexample:
  "map timestamp_of
     (tail ''alpha'' 3
        (three_appends ''2024-05-01T10:00:05Z'' ''2024-05-01T10:00:01Z'' ''2024-05-01T10:00:02Z''))
     = [''2024-05-01T10:00:05Z'', ''2024-05-01T10:00:01Z'', ''2024-05-01T10:00:02Z'']
   \<and> \<not> sorted (map timestamp_of
        (tail ''alpha'' 3
           (three_appends ''2024-05-01T10:00:05Z'' ''2024-05-01T10:00:01Z''
              ''2024-05-01T10:00:02Z'')))
   \<and> map timestamp_of
        (tail ''alpha'' 3
           (three_appends ''2024-05-01T10:00:00.999999Z'' ''2024-05-01T10:00:01Z''
              ''2024-05-01T10:00:01.000001Z''))
     = [''2024-05-01T10:00:00.999999Z'', ''2024-05-01T10:00:01Z'', ''2024-05-01T10:00:01.000001Z'']
   \<and> \<not> sorted (map timestamp_of
        (tail ''alpha'' 3
           (three_appends ''2024-05-01T10:00:00.999999Z'' ''2024-05-01T10:00:01Z''
              ''2024-05-01T10:00:01.000001Z'')))"
  by (simp add: three_appends_def append_event_def entry_of_def setdefault_def get_none_def
      fmt_def log_path_def lib0_def journal_def tail_def slice_from_def timestamp_of_def Let_def)

section \<open>The agent runtime: policy guard and visibility\<close>

lemma append_event_journal:
  "\<exists>new. journal (snd (append_event L now uuid event logs)) k = journal logs k @ new
     \<and> (\<forall>e\<in>set new. map_of e ''visibility'' = map_of event ''visibility'')"
  by (auto simp add: append_event_def Let_def journal_def entry_of_def setdefault_def
      update_conv' split: option.splits)

lemma rt_append_event_journal:
  "\<exists>new. journal (snd (rt_append_event L now uuid task kind payload logs)) k
           = journal logs k @ new
     \<and> (\<forall>e\<in>set new. map_of e ''visibility'' = Some (JStr ''internal''))"
proof (cases "conversation_id task")
  case (Inl e)
  then show ?thesis by (simp add: rt_append_event_def)
next
  case (Inr conv)
  let ?ev = "[(''conversation_id'', conv), (''type'', JStr kind), (''payload'', JObj payload),
              (''visibility'', JStr ''internal'')]"
  obtain new where n: "journal (snd (append_event L now uuid ?ev logs)) k = journal logs k @ new"
    "\<forall>e\<in>set new. map_of e ''visibility'' = map_of ?ev ''visibility''"
    using append_event_journal [of L now uuid ?ev logs k] by blast
  have "snd (rt_append_event L now uuid task kind payload logs)
        = snd (append_event L now uuid ?ev logs)"
    using Inr by (simp add: rt_append_event_def split: prod.splits sum.splits)
  then show ?thesis using n by auto
qed

lemma emit_update_internal:
  "\<exists>new. journal (snd (snd (emit_update L now uuid clock rt task message progress extra logs))) k
           = journal logs k @ new
     \<and> (\<forall>e\<in>set new. map_of e ''visibility'' = Some (JStr ''internal''))"
proof (cases "enforce_policy (emit_payload rt task message progress extra)")
  case (Inl e)
  then show ?thesis by (simp add: emit_update_def)
next
  case (Inr payload)
  have "snd (snd (emit_update L now uuid clock rt task message progress extra logs))
        = snd (rt_append_event L now uuid task ''AGENT_UPDATE'' payload logs)"
    using Inr by (simp add: emit_update_def split: prod.splits sum.splits)
  then show ?thesis
    using rt_append_event_journal [of L now uuid task "''AGENT_UPDATE''" payload logs k] by simp
qed

lemma complete_task_internal:
  "\<exists>new. journal (fst (snd (complete_task L now uuid now' rt task result logs tasks))) k
           = journal logs k @ new
     \<and> (\<forall>e\<in>set new. map_of e ''visibility'' = Some (JStr ''internal''))"
proof (cases "enforce_policy (complete_payload rt result)")
  case (Inl e)
  then show ?thesis by (simp add: complete_task_def)
next
  case (Inr payload)
  have "fst (snd (complete_task L now uuid now' rt task result logs tasks))
        = snd (rt_append_event L now uuid task ''AGENT_RESULT'' payload logs)"
    using Inr by (simp add: complete_task_def split: prod.splits sum.splits)
  then show ?thesis
    using rt_append_event_journal [of L now uuid task "''AGENT_RESULT''" payload logs k] by simp
qed

lemma fail_task_internal:
  "\<exists>new. journal (fst (snd (fail_task L now uuid now' rt task err logs tasks))) k
           = journal logs k @ new
     \<and> (\<forall>e\<in>set new. map_of e ''visibility'' = Some (JStr ''internal''))"
proof (cases "enforce_policy (fail_payload rt err)")
  case (Inl e)
  then show ?thesis by (simp add: fail_task_def)
next
  case (Inr payload)
  have "fst (snd (fail_task L now uuid now' rt task err logs tasks))
        = snd (rt_append_event L now uuid task ''AGENT_RESULT'' payload logs)"
    using Inr by (simp add: fail_task_def split: prod.splits sum.splits)
  then show ?thesis
    using rt_append_event_journal [of L now uuid task "''AGENT_RESULT''" payload logs k] by simp
qed

text \<open>The payloads of \<open>complete_task\<close> and \<open>fail_task\<close> are built from fixed keys, none of
  them \<open>"render_to_user"\<close>: the guard never fires for them.\<close>

lemma complete_payload_passes:
  "enforce_policy (complete_payload rt result) = Inr (complete_payload rt result)"
  by (simp add: enforce_policy_def complete_payload_def get_none_def AList.delete_eq)

lemma fail_payload_passes:
  "enforce_policy (fail_payload rt err) = Inr (fail_payload rt err)"
  by (simp add: enforce_policy_def fail_payload_def get_none_def AList.delete_eq)

text \<open>
  Claim C2. When the payload that \<open>emit_update\<close> has built carries a truthy
  \<open>"render_to_user"\<close>, the guard raises \<open>PolicyViolation\<close> and \<open>emit_update\<close> ends with that
  error: the log is the log it was given, no event is appended, and the heartbeat is not
  refreshed. The flag is rejected, not removed. (\<open>complete_task\<close> and \<open>fail_task\<close> pass
  their payload through the same guard before they append; by \<open>complete_payload_passes\<close>
  and \<open>fail_payload_passes\<close> no input of theirs sets the flag.)
\<close>

theorem emit_update_policy_violation:
  assumes "truthy (get_none (emit_payload rt task message progress extra) ''render_to_user'')"
  shows "enforce_policy (emit_payload rt task message progress extra)
           = Inl (PolicyViolation ''Agent events cannot add user-visible output; narrator only.'')
       \<and> emit_update L now uuid clock rt task message progress extra logs
           = (Inl (PolicyViolation ''Agent events cannot add user-visible output; narrator only.''),
              rt, logs)"
  using assms by (simp add: emit_update_def enforce_policy_def)

theorem emit_update_policy_violation_witness:
  "truthy (get_none (emit_payload rt0 task0 ''nope'' None (Some [(''render_to_user'', JBool True)]))
             ''render_to_user'')
   \<and> emit_update lib0 ''2024-05-01T10:00:00Z'' ''77aa'' 3 rt0 task0 ''nope'' None
         (Some [(''render_to_user'', JBool True)]) (\<lambda>k. None)
       = (Inl (PolicyViolation ''Agent events cannot add user-visible output; narrator only.''),
          rt0, (\<lambda>k. None))"
proof -
  have h: "truthy (get_none (emit_payload rt0 task0 ''nope'' None
             (Some [(''render_to_user'', JBool True)])) ''render_to_user'')"
    by (simp add: emit_payload_def dict_update_def get_none_def)
  show ?thesis
    using h emit_update_policy_violation [OF h, of lib0 "''2024-05-01T10:00:00Z''" "''77aa''" 3
        "\<lambda>k. None"]
    by simp
qed

text \<open>
  Claim C10. Whatever the task and the payload, the entries that \<open>emit_update\<close>,
  \<open>complete_task\<close> and \<open>fail_task\<close> add to a journal all have visibility \<open>"internal"\<close>:
  every journal after the call is the journal before it followed by new entries (none or
  one), and each new entry's \<open>visibility\<close> is \<open>"internal"\<close>, never \<open>"user"\<close> or \<open>"system"\<close>.
\<close>

theorem agent_events_internal:
  "(\<exists>new. journal (snd (snd (emit_update L now uuid clock rt task message progress extra logs))) k
            = journal logs k @ new
        \<and> (\<forall>e\<in>set new. map_of e ''visibility'' = Some (JStr ''internal'')))
   \<and> (\<exists>new. journal (fst (snd (complete_task L now uuid now' rt task result logs tasks))) k
            = journal logs k @ new
        \<and> (\<forall>e\<in>set new. map_of e ''visibility'' = Some (JStr ''internal'')))
   \<and> (\<exists>new. journal (fst (snd (fail_task L now uuid now' rt task err logs tasks))) k
            = journal logs k @ new
        \<and> (\<forall>e\<in>set new. map_of e ''visibility'' = Some (JStr ''internal'')))"
  by (intro conjI emit_update_internal complete_task_internal fail_task_internal)

theorem agent_events_internal_witness:
  "journal (snd (snd (emit_update lib0 ''2024-05-01T10:00:00Z'' ''77aa'' 3 rt0 task0 ''working''
              None (Some [(''visibility'', JStr ''user'')]) (\<lambda>k. None)))) ''conv-1''
   = [[(''conversation_id'', JStr ''conv-1''), (''type'', JStr ''AGENT_UPDATE''),
       (''payload'', JObj [(''task_id'', JStr ''task-1''), (''agent_id'', JStr ''coder-1''),
                           (''agent_type'', JStr ''coder''), (''message'', JStr ''working''),
                           (''visibility'', JStr ''user'')]),
       (''visibility'', JStr ''internal''), (''id'', JStr ''evt-77aa''),
       (''timestamp'', JStr ''2024-05-01T10:00:00Z'')]]
   \<and> list_all (\<lambda>e. map_of e ''visibility'' = Some (JStr ''internal''))
        (journal (snd (snd (emit_update lib0 ''2024-05-01T10:00:00Z'' ''77aa'' 3 rt0 task0
              ''working'' None (Some [(''visibility'', JStr ''user'')]) (\<lambda>k. None)))) ''conv-1'')"
proof -
  let ?logs' = "snd (snd (emit_update lib0 ''2024-05-01T10:00:00Z'' ''77aa'' 3 rt0 task0
              ''working'' None (Some [(''visibility'', JStr ''user'')]) (\<lambda>k. None)))"
  obtain new where n: "journal ?logs' ''conv-1'' = journal (\<lambda>k. None) ''conv-1'' @ new"
    "\<forall>e\<in>set new. map_of e ''visibility'' = Some (JStr ''internal'')"
    using agent_events_internal [of lib0 "''2024-05-01T10:00:00Z''" "''77aa''" 3 rt0 task0
        "''working''" None "Some [(''visibility'', JStr ''user'')]" "\<lambda>k. None" "''conv-1''"]
    by blast
  have "journal ?logs' ''conv-1'' = new"
    using n(1) by (simp add: journal_def)
  then have all: "list_all (\<lambda>e. map_of e ''visibility'' = Some (JStr ''internal''))
                    (journal ?logs' ''conv-1'')"
    using n(2) by (simp add: list_all_iff)
  have ev: "journal ?logs' ''conv-1''
     = [[(''conversation_id'', JStr ''conv-1''), (''type'', JStr ''AGENT_UPDATE''),
       (''payload'', JObj [(''task_id'', JStr ''task-1''), (''agent_id'', JStr ''coder-1''),
                           (''agent_type'', JStr ''coder''), (''message'', JStr ''working''),
                           (''visibility'', JStr ''user'')]),
       (''visibility'', JStr ''internal''), (''id'', JStr ''evt-77aa''),
       (''timestamp'', JStr ''2024-05-01T10:00:00Z'')]]"
    by (simp add: emit_update_def emit_payload_def enforce_policy_def rt_append_event_def
        conversation_id_def obj_get_def append_event_def entry_of_def setdefault_def
        get_none_def fmt_def journal_def rt0_def task0_def dict_update_def Let_def
        AList.delete_eq log_path_def lib0_def)
  show ?thesis using all ev by blast
qed

section \<open>The controller gate: speak or stay silent\<close>

lemma slice_from_last: "0 < n \<Longrightarrow> slice_from (- int n) xs = drop (length xs - n) xs"
  by (simp add: slice_from_def nat_diff_distrib' del: of_nat_diff) 

lemma scan_triggers_ok:
  "\<forall>e\<in>set evs. hashable (get_none e ''type'') \<Longrightarrow>
   scan_triggers evs = Inr (\<exists>e\<in>set evs. get_none e ''type'' \<in> JStr ` TRIGGER_EVENT_TYPES)"
  by (induction evs) (auto simp: Let_def)

text \<open>
  Claim C5. For every hint list (absent counts as empty) and every list of events whose
  last five carry a hashable type (a string, as in the data model, or none), \<open>decide\<close>
  returns a decision, and its \<open>speak_now\<close> is true exactly when some hint is one of
  \<open>user_waiting\<close>, \<open>task_completed\<close>, \<open>agent_failed\<close> or some event among the last five has
  the type \<open>ERROR\<close> or \<open>AGENT_RESULT\<close>.
\<close>

theorem decide_speak_now:
  assumes "\<forall>e\<in>set (drop (length recent - 5) recent). hashable (get_none e ''type'')"
  shows "\<exists>d. decide hints recent = Inr d
           \<and> (speak_now d \<longleftrightarrow>
                (\<exists>h\<in>set (case hints of None \<Rightarrow> [] | Some hs \<Rightarrow> hs).
                    h \<in> {''user_waiting'', ''task_completed'', ''agent_failed''})
              \<or> (\<exists>e\<in>set (drop (length recent - 5) recent).
                    get_none e ''type'' \<in> {JStr ''ERROR'', JStr ''AGENT_RESULT''}))"
proof -
  have l5: "slice_from (- 5) recent = drop (length recent - 5) recent"
    using slice_from_last [of 5 recent] by simp
  have "scan_triggers (rev (slice_from (- 5) recent))
        = Inr (\<exists>e\<in>set (rev (slice_from (- 5) recent)).
                 get_none e ''type'' \<in> JStr ` TRIGGER_EVENT_TYPES)"
    using assms l5 by (intro scan_triggers_ok) simp
  then show ?thesis
    using l5
    by (auto simp: decide_def Let_def list_ex_iff SPEAK_HINTS_def TRIGGER_EVENT_TYPES_def)
qed

theorem decide_speak_now_witness:
  "(\<exists>d. decide (Some []) events_a = Inr d \<and> \<not> speak_now d)
   \<and> (\<exists>d. decide (Some [''user_waiting'']) events_a = Inr d \<and> speak_now d)
   \<and> (\<exists>d. decide (Some []) (events_a @ [event_result]) = Inr d \<and> speak_now d)"
proof -
  have ha: "\<forall>e\<in>set (drop (length events_a - 5) events_a). hashable (get_none e ''type'')"
    by (simp add: events_a_def get_none_def)
  have hc: "\<forall>e\<in>set (drop (length (events_a @ [event_result]) - 5) (events_a @ [event_result])).
              hashable (get_none e ''type'')"
    by (simp add: events_a_def event_result_def get_none_def)
  have a: "\<exists>d. decide (Some []) events_a = Inr d \<and> \<not> speak_now d"
    using decide_speak_now [OF ha, of "Some []"]
    by (auto simp: events_a_def get_none_def)
  have b: "\<exists>d. decide (Some [''user_waiting'']) events_a = Inr d \<and> speak_now d"
    using decide_speak_now [OF ha, of "Some [''user_waiting'']"]
    by auto
  have c: "\<exists>d. decide (Some []) (events_a @ [event_result]) = Inr d \<and> speak_now d"
    using decide_speak_now [OF hc, of "Some []"]
    by (auto simp: events_a_def event_result_def get_none_def)
  show ?thesis using a b c by blast
qed

section \<open>Claiming: which task, and what becomes of it\<close>

lemma filter_status_ok:
  "\<forall>n\<in>set tasks. hashable (get_none n ''status'') \<Longrightarrow>
   filter_status wanted tasks
     = Inr (filter (\<lambda>n. get_none n ''status'' \<in> JStr ` set wanted) tasks)"
  by (induction tasks) (auto simp: Let_def)

lemma find_filter: "find P (filter Q xs) = find (\<lambda>x. Q x \<and> P x) xs"
  by (induction xs) auto

lemma poll_select_ok:
  assumes "\<forall>n\<in>set tasks. hashable (get_none n ''status'')"
  shows "poll_select rt tasks = Inr (find (eligible rt) tasks)"
proof -
  have "(\<lambda>x. get_none x ''status'' \<in> JStr ` set [''PENDING'']
             \<and> get_none x ''type'' = JStr (agent_type rt))
        = eligible rt"
    by (auto simp: eligible_def fun_eq_iff)
  then show ?thesis
    using filter_status_ok [OF assms, of "[''PENDING'']"]
    by (simp add: poll_select_def list_active_def find_filter)
qed

lemma find_none: "\<not> (\<exists>n\<in>set xs. P n) \<Longrightarrow> find P xs = None"
  by (induction xs) auto

lemma find_first:
  "\<forall>n\<in>set pre. \<not> P n \<Longrightarrow> P node \<Longrightarrow> find P (pre @ node # post) = Some node"
  by (induction pre) auto

lemma update_scan_found:
  assumes "\<forall>n\<in>set pre. \<exists>j. map_of n ''id'' = Some j \<and> \<not> py_eq j i"
    and "map_of node ''id'' = Some i"
  shows "update_scan now i patch seen (pre @ node # post)
         = (Inr (AList.update ''updated_at'' (JStr now) (dict_update node patch)),
            seen @ pre @ AList.update ''updated_at'' (JStr now) (dict_update node patch) # post)"
  using assms
proof (induction pre arbitrary: seen)
  case Nil
  then show ?case by (simp add: Let_def py_eq_refl)
next
  case (Cons n pre)
  then obtain j where j: "map_of n ''id'' = Some j" "\<not> py_eq j i" by auto
  have "update_scan now i patch (seen @ [n]) (pre @ node # post)
         = (Inr (AList.update ''updated_at'' (JStr now) (dict_update node patch)),
            (seen @ [n]) @ pre
              @ AList.update ''updated_at'' (JStr now) (dict_update node patch) # post)"
    using Cons by (intro Cons.IH) auto
  then show ?case using j by simp
qed

text \<open>Ids are matched with \<open>==\<close>: a search for the id \<open>1\<close> stops at an earlier task whose
  id is \<open>True\<close>, and that task is the one patched.\<close>

lemma update_task_equal_ids:
  "map (\<lambda>n. get_none n ''status'')
     (snd (update_task ''2024-05-01T10:00:00Z'' (JInt 1) [(''status'', JStr ''IN_PROGRESS'')]
             [[(''id'', JBool True), (''status'', JStr ''COMPLETED'')],
              [(''id'', JInt 1), (''status'', JStr ''PENDING'')]]))
   = [JStr ''IN_PROGRESS'', JStr ''PENDING'']"
  by (simp add: update_task_def dict_update_def get_none_def Let_def)

lemma claimed_fields:
  "map_of (claimed_node now own a node) ''status'' = Some (JStr ''IN_PROGRESS'')"
  "map_of (claimed_node now own a node) ''owner'' = Some (JStr own)"
  "map_of (claimed_node now own a node) ''attempt'' = Some (JInt (a + 1))"
  "map_of (claimed_node now own a node) ''updated_at'' = Some (JStr now)"
  "k \<notin> {''status'', ''owner'', ''attempt'', ''updated_at''} \<Longrightarrow>
     map_of (claimed_node now own a node) k = map_of node k"
  by (simp_all add: claimed_node_def dict_update_def update_conv')

lemma poll_claims:
  assumes h: "\<forall>n\<in>set tasks. hashable (get_none n ''status'')"
    and t: "tasks = pre @ node # post"
    and pre: "\<forall>n\<in>set pre. \<not> eligible rt n"
      "\<forall>n\<in>set pre. \<exists>j. map_of n ''id'' = Some j \<and> \<not> py_eq j i"
    and el: "eligible rt node" and i: "map_of node ''id'' = Some i"
    and a: "get_default node ''attempt'' (JInt 0) = JInt a"
  shows "\<exists>task node'. poll_next_task now rt tasks = (Inr (Some task), pre @ node' # post)
           \<and> to_agent_task node' = Inr task
           \<and> map_of node' ''id'' = Some i
           \<and> map_of node' ''status'' = Some (JStr ''IN_PROGRESS'')
           \<and> map_of node' ''owner'' = Some (JStr (agent_id rt))
           \<and> map_of node' ''attempt'' = Some (JInt (a + 1))
           \<and> map_of node' ''updated_at'' = Some (JStr now)
           \<and> (\<forall>k. k \<notin> {''status'', ''owner'', ''attempt'', ''updated_at''}
                  \<longrightarrow> map_of node' k = map_of node k)
           \<and> t_id task = i \<and> t_status task = JStr ''IN_PROGRESS''
           \<and> t_owner task = JStr (agent_id rt) \<and> t_attempt task = JInt (a + 1)"
proof -
  define node' where "node' = claimed_node now (agent_id rt) a node"
  note f = claimed_fields [where now = now and own = "agent_id rt" and a = a and node = node,
      folded node'_def]
  have id': "map_of node' ''id'' = Some i"
    using f(5) [where k = "''id''"] i by simp
  have sel: "poll_select rt tasks = Inr (Some node)"
    using poll_select_ok [OF h, of rt] find_first [of pre "eligible rt" node post] pre(1) el t
    by simp
  have att: "attempt_next node = Inr (JInt (a + 1))"
    using a by (simp add: attempt_next_def)
  have upd: "update_task now i [(''status'', JStr ''IN_PROGRESS''),
                (''owner'', JStr (agent_id rt)), (''attempt'', JInt (a + 1))] tasks
             = (Inr node', pre @ node' # post)"
    using update_scan_found [OF pre(2) i, of now _ "[]" post] t
    by (simp add: update_task_def node'_def claimed_node_def)
  define task where "task = \<lparr>t_id = i,
               t_type = get_default node' ''type'' (JStr ''unknown''),
               t_status = get_default node' ''status'' (JStr ''UNKNOWN''),
               t_owner = get_none node' ''owner'',
               t_priority = get_default node' ''priority'' (JInt 0),
               t_inputs = get_default node' ''inputs'' (JObj []),
               t_context = get_default node' ''context'' (JObj []),
               t_metadata = get_default node' ''metadata'' (JObj []),
               t_attempt = get_default node' ''attempt'' (JInt 0)\<rparr>"
  have conv: "to_agent_task node' = Inr task"
    using id' by (simp add: to_agent_task_def task_def)
  have poll: "poll_next_task now rt tasks = (Inr (Some task), pre @ node' # post)"
    using sel att upd conv i by (simp add: poll_next_task_def poll_commit_def)
  have tf: "t_id task = i" "t_status task = JStr ''IN_PROGRESS''"
    "t_owner task = JStr (agent_id rt)" "t_attempt task = JInt (a + 1)"
    using f(1-3) by (simp_all add: task_def get_default_def get_none_def)
  show ?thesis
    using poll conv id' f(1-4) f(5) tf by blast
qed

lemma poll_none:
  assumes h: "\<forall>n\<in>set tasks. hashable (get_none n ''status'')"
    and "\<not> (\<exists>n\<in>set tasks. eligible rt n)"
  shows "poll_next_task now rt tasks = (Inr None, tasks)"
  using poll_select_ok [OF h, of rt] find_none [OF assms(2)] by (simp add: poll_next_task_def)

text \<open>
  Claim C3, as amended. In a registry whose statuses are hashable values,
  \<open>poll_next_task\<close> takes the first task in storage order that is pending and of the
  agent's type (neither \<open>created_at\<close> nor the id plays a part). When there is none it
  returns \<open>None\<close> and the registry is unchanged. When \<open>node\<close> is that first task, it has an
  id \<open>i\<close>, every earlier task has an id and none of those is equal (\<open>==\<close>) to \<open>i\<close>, and
  its attempt count is an integer \<open>a\<close>, the call replaces \<open>node\<close> in place by a node with
  status \<open>IN_PROGRESS\<close>, the agent's id as owner, attempt \<open>a + 1\<close> and a new \<open>updated_at\<close>,
  every other field and task as before, and returns that node as an \<open>AgentTask\<close>.
\<close>

theorem poll_next_task_storage_order:
  assumes "\<forall>n\<in>set tasks. hashable (get_none n ''status'')"
  shows "(\<not> (\<exists>n\<in>set tasks. eligible rt n) \<longrightarrow> poll_next_task now rt tasks = (Inr None, tasks))
       \<and> (\<forall>pre node post i a.
            tasks = pre @ node # post
            \<and> (\<forall>n\<in>set pre. \<not> eligible rt n)
            \<and> (\<forall>n\<in>set pre. \<exists>j. map_of n ''id'' = Some j \<and> \<not> py_eq j i)
            \<and> eligible rt node \<and> map_of node ''id'' = Some i
            \<and> get_default node ''attempt'' (JInt 0) = JInt a
          \<longrightarrow> (\<exists>task node'.
                 poll_next_task now rt tasks = (Inr (Some task), pre @ node' # post)
               \<and> to_agent_task node' = Inr task
               \<and> map_of node' ''id'' = Some i
               \<and> map_of node' ''status'' = Some (JStr ''IN_PROGRESS'')
               \<and> map_of node' ''owner'' = Some (JStr (agent_id rt))
               \<and> map_of node' ''attempt'' = Some (JInt (a + 1))
               \<and> map_of node' ''updated_at'' = Some (JStr now)
               \<and> (\<forall>k. k \<notin> {''status'', ''owner'', ''attempt'', ''updated_at''}
                      \<longrightarrow> map_of node' k = map_of node k)
               \<and> t_id task = i \<and> t_status task = JStr ''IN_PROGRESS''
               \<and> t_owner task = JStr (agent_id rt) \<and> t_attempt task = JInt (a + 1)))"
proof (intro conjI impI allI)
  assume "\<not> (\<exists>n\<in>set tasks. eligible rt n)"
  then show "poll_next_task now rt tasks = (Inr None, tasks)"
    using poll_none [OF assms] by simp
next
  fix pre node post i a
  assume c: "tasks = pre @ node # post
            \<and> (\<forall>n\<in>set pre. \<not> eligible rt n)
            \<and> (\<forall>n\<in>set pre. \<exists>j. map_of n ''id'' = Some j \<and> \<not> py_eq j i)
            \<and> eligible rt node \<and> map_of node ''id'' = Some i
            \<and> get_default node ''attempt'' (JInt 0) = JInt a"
  show "\<exists>task node'.
                 poll_next_task now rt tasks = (Inr (Some task), pre @ node' # post)
               \<and> to_agent_task node' = Inr task
               \<and> map_of node' ''id'' = Some i
               \<and> map_of node' ''status'' = Some (JStr ''IN_PROGRESS'')
               \<and> map_of node' ''owner'' = Some (JStr (agent_id rt))
               \<and> map_of node' ''attempt'' = Some (JInt (a + 1))
               \<and> map_of node' ''updated_at'' = Some (JStr now)
               \<and> (\<forall>k. k \<notin> {''status'', ''owner'', ''attempt'', ''updated_at''}
                      \<longrightarrow> map_of node' k = map_of node k)
               \<and> t_id task = i \<and> t_status task = JStr ''IN_PROGRESS''
               \<and> t_owner task = JStr (agent_id rt) \<and> t_attempt task = JInt (a + 1)"
    using c by (intro poll_claims [OF assms]) simp_all
qed

theorem poll_next_task_storage_order_witness:
  "(\<exists>task node'.
      poll_next_task ''2024-05-01T10:00:00Z'' rt0 [node_coder, node_search]
        = (Inr (Some task), [node', node_search])
      \<and> map_of node' ''status'' = Some (JStr ''IN_PROGRESS'')
      \<and> t_id task = JStr ''task-1'' \<and> t_status task = JStr ''IN_PROGRESS''
      \<and> t_owner task = JStr ''coder-1'' \<and> t_attempt task = JInt 1)
   \<and> poll_next_task ''2024-05-01T10:00:00Z'' rt_writer [node_coder, node_search]
        = (Inr None, [node_coder, node_search])"
proof -
  have h: "\<forall>n\<in>set [node_coder, node_search]. hashable (get_none n ''status'')"
    by (simp add: node_coder_def node_search_def get_none_def)
  note inst = poll_next_task_storage_order [OF h, of _ "''2024-05-01T10:00:00Z''"]
  have none: "\<not> (\<exists>n\<in>set [node_coder, node_search]. eligible rt_writer n)"
    by (simp add: node_coder_def node_search_def eligible_def get_none_def rt_writer_def)
  have w: "poll_next_task ''2024-05-01T10:00:00Z'' rt_writer [node_coder, node_search]
        = (Inr None, [node_coder, node_search])"
    using inst [of rt_writer] none by blast
  have pre: "[node_coder, node_search] = [] @ node_coder # [node_search]
            \<and> (\<forall>n\<in>set []. \<not> eligible rt0 n)
            \<and> (\<forall>n\<in>set []. \<exists>j. map_of n ''id'' = Some j \<and> \<not> py_eq j (JStr ''task-1''))
            \<and> eligible rt0 node_coder \<and> map_of node_coder ''id'' = Some (JStr ''task-1'')
            \<and> get_default node_coder ''attempt'' (JInt 0) = JInt 0"
    by (simp add: node_coder_def eligible_def get_none_def get_default_def rt0_def)
  have "\<exists>task node'.
      poll_next_task ''2024-05-01T10:00:00Z'' rt0 [node_coder, node_search]
        = (Inr (Some task), [] @ node' # [node_search])
      \<and> map_of node' ''status'' = Some (JStr ''IN_PROGRESS'')
      \<and> t_id task = JStr ''task-1'' \<and> t_status task = JStr ''IN_PROGRESS''
      \<and> t_owner task = JStr (agent_id rt0) \<and> t_attempt task = JInt (0 + 1)"
    using inst [of rt0, THEN conjunct2, rule_format, OF pre] by blast
  then have c: "\<exists>task node'.
      poll_next_task ''2024-05-01T10:00:00Z'' rt0 [node_coder, node_search]
        = (Inr (Some task), [node', node_search])
      \<and> map_of node' ''status'' = Some (JStr ''IN_PROGRESS'')
      \<and> t_id task = JStr ''task-1'' \<and> t_status task = JStr ''IN_PROGRESS''
      \<and> t_owner task = JStr ''coder-1'' \<and> t_attempt task = JInt 1"
    by (simp add: rt0_def)
  show ?thesis using c w by blast
qed

text \<open>
  Claim C3 as stated fails: the choice is not by creation time with ties broken by id.
  Two drafts are created one after the other; the second carries the earlier
  \<open>created_at\<close> (and the smaller id). Both are pending tasks of the agent's type, and
  \<open>poll_next_task\<close> claims the first stored, \<open>task-b\<close>, not the earliest created,
  \<open>task-a\<close>.
\<close>

theorem poll_next_task_order_counterexample:
  "map (\<lambda>n. (get_none n ''id'', get_none n ''created_at''))
       (snd (create_task ''2024-05-01T10:00:09Z'' ''a1'' draft_a
          (snd (create_task ''2024-05-01T10:00:08Z'' ''b2'' draft_b []))))
     = [(JStr ''task-b'', JStr ''2024-05-01T10:00:05Z''),
        (JStr ''task-a'', JStr ''2024-05-01T10:00:01Z'')]
   \<and> list_all (eligible rt0)
       (snd (create_task ''2024-05-01T10:00:09Z'' ''a1'' draft_a
          (snd (create_task ''2024-05-01T10:00:08Z'' ''b2'' draft_b []))))
   \<and> ''2024-05-01T10:00:01Z'' < ''2024-05-01T10:00:05Z''
   \<and> (case fst (poll_next_task ''2024-05-01T10:00:10Z'' rt0
                 (snd (create_task ''2024-05-01T10:00:09Z'' ''a1'' draft_a
                    (snd (create_task ''2024-05-01T10:00:08Z'' ''b2'' draft_b []))))) of
         Inr (Some t) \<Rightarrow> t_id t = JStr ''task-b''
       | _ \<Rightarrow> False)"
  by (simp add: create_task_def draft_a_def draft_b_def get_default_def get_none_def Let_def
      eligible_def rt0_def poll_next_task_def poll_select_def list_active_def poll_commit_def
      attempt_next_def update_task_def dict_update_def to_agent_task_def)

section \<open>Claiming: two claimants\<close>

lemma filter_status_Inr:
  "filter_status wanted tasks = Inr act \<Longrightarrow>
   act = filter (\<lambda>n. get_none n ''status'' \<in> JStr ` set wanted) tasks"
  by (induction tasks arbitrary: act) (auto simp: Let_def split: if_splits sum.splits)

lemma poll_select_Some:
  assumes "poll_select rt tasks = Inr (Some node)"
  shows "node \<in> set tasks \<and> get_none node ''status'' = JStr ''PENDING''"
proof -
  from assms obtain act where act: "list_active (Some [''PENDING'']) tasks = Inr act"
    "find (\<lambda>node. get_none node ''type'' = JStr (agent_type rt)) act = Some node"
    by (auto simp: poll_select_def split: sum.splits)
  then have "act = filter (\<lambda>n. get_none n ''status'' \<in> JStr ` set [''PENDING'']) tasks"
    by (intro filter_status_Inr) (simp add: list_active_def)
  moreover have "node \<in> set act"
    using act(2) by (auto simp: find_Some_iff)
  ultimately show ?thesis by auto
qed

lemma update_scan_Inr:
  "update_scan now i patch seen tasks = (Inr claimed, tasks') \<Longrightarrow>
   \<exists>pre n post j. tasks = pre @ n # post \<and> map_of n ''id'' = Some j \<and> py_eq j i
      \<and> claimed = AList.update ''updated_at'' (JStr now) (dict_update n patch)
      \<and> tasks' = seen @ pre @ claimed # post"
proof (induction tasks arbitrary: seen)
  case Nil
  then show ?case by simp
next
  case (Cons node rest)
  then obtain j where j: "map_of node ''id'' = Some j"
    by (cases "map_of node ''id''") auto
  show ?case
  proof (cases "py_eq j i")
    case True
    then have "claimed = AList.update ''updated_at'' (JStr now) (dict_update node patch)"
      "tasks' = seen @ claimed # rest"
      using Cons.prems j by (auto simp: Let_def)
    then have "node # rest = [] @ node # rest \<and> map_of node ''id'' = Some j \<and> py_eq j i
      \<and> claimed = AList.update ''updated_at'' (JStr now) (dict_update node patch)
      \<and> tasks' = seen @ [] @ claimed # rest"
      using j True by simp
    then show ?thesis by blast
  next
    case False
    then have "update_scan now i patch (seen @ [node]) rest = (Inr claimed, tasks')"
      using Cons.prems j by simp
    from Cons.IH [OF this] obtain pre n post k where
      "rest = pre @ n # post" "map_of n ''id'' = Some k" "py_eq k i"
      "claimed = AList.update ''updated_at'' (JStr now) (dict_update n patch)"
      "tasks' = (seen @ [node]) @ pre @ claimed # post"
      by blast
    then have "node # rest = (node # pre) @ n # post \<and> map_of n ''id'' = Some k \<and> py_eq k i
      \<and> claimed = AList.update ''updated_at'' (JStr now) (dict_update n patch)
      \<and> tasks' = seen @ (node # pre) @ claimed # post"
      by simp
    then show ?thesis by blast
  qed
qed

lemma poll_next_task_Some:
  assumes "poll_next_task now rt tasks = (Inr (Some t), tasks')"
  shows "\<exists>pre n post node i. tasks = pre @ n # post \<and> node \<in> set tasks
           \<and> get_none node ''status'' = JStr ''PENDING''
           \<and> map_of node ''id'' = Some i \<and> py_eq (t_id t) i
           \<and> map_of n ''id'' = Some (t_id t)
           \<and> (\<exists>n'. tasks' = pre @ n' # post \<and> get_none n' ''status'' = JStr ''IN_PROGRESS'')"
proof -
  from assms obtain node where sel: "poll_select rt tasks = Inr (Some node)"
    and com: "poll_commit now rt node tasks = (Inr (Some t), tasks')"
    by (auto simp: poll_next_task_def split: sum.splits option.splits)
  from com obtain i a claimed where i: "map_of node ''id'' = Some i"
    and upd: "update_task now i [(''status'', JStr ''IN_PROGRESS''),
                (''owner'', JStr (agent_id rt)), (''attempt'', a)] tasks = (Inr claimed, tasks')"
    and conv: "to_agent_task claimed = Inr t"
    by (auto simp: poll_commit_def split: option.splits sum.splits prod.splits)
  have "update_scan now i [(''status'', JStr ''IN_PROGRESS''),
                (''owner'', JStr (agent_id rt)), (''attempt'', a)] [] tasks = (Inr claimed, tasks')"
    using upd by (simp add: update_task_def)
  from update_scan_Inr [OF this] obtain pre n post j where
    d: "tasks = pre @ n # post" "map_of n ''id'' = Some j" "py_eq j i"
    "claimed = AList.update ''updated_at'' (JStr now) (dict_update n [(''status'', JStr ''IN_PROGRESS''),
                (''owner'', JStr (agent_id rt)), (''attempt'', a)])"
    "tasks' = pre @ claimed # post"
    by auto
  have cid: "map_of claimed ''id'' = Some j"
    using d(2,4) by (simp add: dict_update_def update_conv')
  have st: "get_none claimed ''status'' = JStr ''IN_PROGRESS''"
    using d(4) by (simp add: dict_update_def update_conv' get_none_def)
  have "t_id t = j"
    using conv cid by (auto simp: to_agent_task_def)
  then show ?thesis
    using poll_select_Some [OF sel] i d st by blast
qed

text \<open>Run one after the other on a registry whose ids are distinct strings, two polls
  never return the same task, whichever runtimes make them.\<close>

lemma sequential_claims_differ:
  assumes ids: "distinct (map (\<lambda>n. map_of n ''id'') tasks)"
    and strs: "\<forall>n\<in>set tasks. \<exists>s. map_of n ''id'' = Some (JStr s)"
    and p1: "poll_next_task now rt tasks = (Inr (Some t), tasks')"
    and p2: "poll_next_task now' rt' tasks' = (Inr (Some t'), tasks'')"
  shows "t_id t \<noteq> t_id t'"
proof -
  from poll_next_task_Some [OF p1] obtain pre n post n' where
    a: "tasks = pre @ n # post" "map_of n ''id'' = Some (t_id t)"
    "tasks' = pre @ n' # post" "get_none n' ''status'' = JStr ''IN_PROGRESS''"
    by blast
  from poll_next_task_Some [OF p2] obtain node2 i2 where
    b: "node2 \<in> set tasks'" "get_none node2 ''status'' = JStr ''PENDING''"
    "map_of node2 ''id'' = Some i2" "py_eq (t_id t') i2"
    by blast
  have "node2 \<noteq> n'" using a(4) b(2) by auto
  then have in2: "node2 \<in> set pre \<union> set post" using b(1) a(3) by auto
  then have "node2 \<in> set tasks" using a(1) by auto
  then have "\<exists>s. map_of node2 ''id'' = Some (JStr s)" using strs by blast
  then obtain s where "i2 = JStr s" using b(3) by auto
  then have same: "t_id t' = i2" using b(4) by (simp add: py_eq_str)
  have "map_of node2 ''id'' \<in> (\<lambda>n. map_of n ''id'') ` (set pre \<union> set post)"
    using in2 by blast
  moreover have "map_of n ''id'' \<notin> (\<lambda>n. map_of n ''id'') ` (set pre \<union> set post)"
    using ids a(1) by (simp add: image_Un)
  ultimately have "map_of node2 ''id'' \<noteq> map_of n ''id''"
    by metis
  then show ?thesis using a(2) b(3) same by auto
qed

text \<open>
  Claim C1 fails on the code. The registry holds one pending task of type \<open>coder\<close>, and
  two runtimes of that type poll. Each poll is a read of the registry (\<open>poll_select\<close>)
  followed by a write (\<open>poll_commit\<close>), and nothing keeps another claimant out between the
  two. When both read before either writes, both find \<open>task-1\<close> pending; the first write
  claims it for \<open>coder-A\<close>, and the second, which does not look at that status again, claims
  it once more for \<open>coder-B\<close>. Both polls return the task \<open>task-1\<close>. (Polls that run one
  after the other do not: \<open>sequential_claims_differ\<close>.)
\<close>

theorem poll_next_task_interleaved_double_claim:
  "poll_select rt_a [node_coder] = Inr (Some node_coder)
   \<and> poll_select rt_b [node_coder] = Inr (Some node_coder)
   \<and> (case poll_commit ''2024-05-01T10:00:01Z'' rt_a node_coder [node_coder] of
         (Inr (Some task_a), tasks_a) \<Rightarrow>
           (case poll_commit ''2024-05-01T10:00:02Z'' rt_b node_coder tasks_a of
              (Inr (Some task_b), tasks_b) \<Rightarrow>
                 t_id task_a = JStr ''task-1'' \<and> t_id task_b = JStr ''task-1''
               \<and> t_owner task_a = JStr ''coder-A'' \<and> t_owner task_b = JStr ''coder-B''
               \<and> t_attempt task_a = JInt 1 \<and> t_attempt task_b = JInt 1
               \<and> map (\<lambda>n. get_none n ''owner'') tasks_b = [JStr ''coder-B'']
            | _ \<Rightarrow> False)
       | _ \<Rightarrow> False)"
  by (simp add: node_coder_def rt_a_def rt_b_def get_default_def get_none_def Let_def
      poll_select_def list_active_def poll_commit_def
      attempt_next_def update_task_def dict_update_def to_agent_task_def)

section \<open>The rolling summary is a function of the event list\<close>

lemma key_eq_str: "key_eq k (JStr g) = (k = JStr g)"
  by (cases k) (auto simp: key_eq_def)

lemma add_group_keys:
  "set (map fst (add_group (JStr g) item groups)) = insert (JStr g) (set (map fst groups))"
proof (induction groups)
  case Nil
  then show ?case by simp
next
  case (Cons kv groups)
  obtain k items where kv: "kv = (k, items)" by (cases kv)
  show ?case
  proof (cases "k = JStr g")
    case True
    then show ?thesis using kv by (auto simp: key_eq_str)
  next
    case False
    have "set (map fst (add_group (JStr g) item (kv # groups)))
          = insert k (set (map fst (add_group (JStr g) item groups)))"
      using False kv by (simp add: key_eq_str)
    also have "\<dots> = insert k (insert (JStr g) (set (map fst groups)))"
      using Cons.IH by simp
    finally show ?thesis using kv by auto
  qed
qed

lemma add_group_distinct:
  "distinct (map fst groups) \<Longrightarrow> distinct (map fst (add_group (JStr g) item groups))"
proof (induction groups)
  case Nil
  then show ?case by simp
next
  case (Cons kv groups)
  obtain k items where kv: "kv = (k, items)" by (cases kv)
  show ?case
  proof (cases "k = JStr g")
    case True
    then show ?thesis using Cons.prems kv by (simp add: key_eq_str)
  next
    case False
    have "k \<notin> set (map fst (add_group (JStr g) item groups))"
      using False Cons.prems kv by (simp only: add_group_keys) auto
    then show ?thesis using False Cons kv by (simp add: key_eq_str)
  qed
qed

lemma add_group_items:
  "items_of (add_group (JStr g) item groups) k
   = (if k = JStr g then items_of groups k @ [item] else items_of groups k)"
  by (induction groups) (auto simp: key_eq_str items_of_def)

lemma group_events_str:
  assumes "\<forall>e\<in>set events. is_str (get_default e ''type'' (JStr ''UNKNOWN''))"
    and "distinct (map fst groups)"
  shows "\<exists>G. group_events L events groups = Inr G
           \<and> distinct (map fst G)
           \<and> set (map fst G) = set (map fst groups) \<union> JStr ` tag_of ` set events
           \<and> (\<forall>g. items_of G (JStr g)
                  = items_of groups (JStr g)
                    @ map (stringify_event L) (filter (\<lambda>e. tag_of e = g) events))"
  using assms
proof (induction events arbitrary: groups)
  case Nil
  then show ?case by simp
next
  case (Cons e events)
  from Cons.prems(1) obtain g where g: "get_default e ''type'' (JStr ''UNKNOWN'') = JStr g"
    by (cases "get_default e ''type'' (JStr ''UNKNOWN'')") auto
  then have tg: "tag_of e = g" by (simp add: tag_of_def)
  let ?G1 = "add_group (JStr g) (stringify_event L e) groups"
  have d1: "distinct (map fst ?G1)" using Cons.prems(2) by (rule add_group_distinct)
  have r: "\<forall>e\<in>set events. is_str (get_default e ''type'' (JStr ''UNKNOWN''))"
    using Cons.prems(1) by simp
  from Cons.IH [OF r d1] obtain G where G: "group_events L events ?G1 = Inr G"
    "distinct (map fst G)"
    "set (map fst G) = set (map fst ?G1) \<union> JStr ` tag_of ` set events"
    "\<forall>h. items_of G (JStr h) = items_of ?G1 (JStr h)
            @ map (stringify_event L) (filter (\<lambda>e. tag_of e = h) events)"
    by blast
  have step: "group_events L (e # events) groups = Inr G"
    using g G(1) by (simp add: Let_def)
  have keys: "set (map fst G) = set (map fst groups) \<union> JStr ` tag_of ` set (e # events)"
    using G(3) tg by (simp only: add_group_keys) auto
  have items: "\<forall>h. items_of G (JStr h) = items_of groups (JStr h)
            @ map (stringify_event L) (filter (\<lambda>e. tag_of e = h) (e # events))"
    using G(4) tg by (auto simp: add_group_items)
  show ?case using step G(2) keys items by blast
qed

lemma sorted_keys_str:
  assumes "\<forall>k\<in>set ks. is_str k"
  shows "sorted_keys ks = Inr (sort_key str_of ks)"
proof (cases "length ks \<le> 1")
  case True
  then have "ks = [] \<or> (\<exists>k. ks = [k])"
    by (cases ks) (auto simp: le_Suc_eq)
  then show ?thesis using True by (auto simp: sorted_keys_def)
next
  case False
  then show ?thesis using assms by (simp add: sorted_keys_def list_all_iff)
qed

lemma is_str_conv: "is_str k \<Longrightarrow> JStr (str_of k) = k"
  by (cases k) auto

lemma sort_str_keys:
  assumes d: "distinct ks" and s: "set ks = JStr ` set tags"
  shows "sort_key str_of ks = map JStr (sort (remdups tags))"
proof (rule map_sorted_distinct_set_unique [where f = str_of])
  show "inj_on str_of (set (sort_key str_of ks) \<union> set (map JStr (sort (remdups tags))))"
    using s by (auto simp: inj_on_def)
  show "sorted (map str_of (sort_key str_of ks))" by (rule sorted_sort_key)
  have inj: "inj_on str_of (set ks)" using s by (auto simp: inj_on_def)
  show "distinct (map str_of (sort_key str_of ks))"
    using d inj by (simp add: distinct_map)
  have m: "map str_of (map JStr (sort (remdups tags))) = sort (remdups tags)"
    by (simp add: comp_def)
  show "sorted (map str_of (map JStr (sort (remdups tags))))" by (simp only: m) simp
  show "distinct (map str_of (map JStr (sort (remdups tags))))" by (simp only: m) simp
  show "set (sort_key str_of ks) = set (map JStr (sort (remdups tags)))"
    using s by simp
qed

lemma rolling_summary_spec:
  assumes "\<forall>e\<in>set events. is_str (get_default e ''type'' (JStr ''UNKNOWN''))"
  shows "rolling_summary L conv events
         = Inr \<lparr>s_conversation_id = conv, content = summary_text_spec L events,
                summary_ref = sha256_hex L (summary_text_spec L events)\<rparr>"
proof -
  obtain G where G: "group_events L events [] = Inr G" "distinct (map fst G)"
    "set (map fst G) = JStr ` tag_of ` set events"
    "\<forall>g. items_of G (JStr g) = map (stringify_event L) (filter (\<lambda>e. tag_of e = g) events)"
    using group_events_str [OF assms, of "[]" L] by (auto simp: items_of_def)
  have ks: "sorted_keys (map fst G) = Inr (map JStr (sort (remdups (map tag_of events))))"
  proof -
    have "\<forall>k\<in>set (map fst G). is_str k" using G(3) by auto
    then have "sorted_keys (map fst G) = Inr (sort_key str_of (map fst G))"
      by (rule sorted_keys_str)
    moreover have "sort_key str_of (map fst G) = map JStr (sort (remdups (map tag_of events)))"
      using G(2) G(3) by (intro sort_str_keys) auto
    ultimately show ?thesis by simp
  qed
  have gl: "group_lines L G (JStr g)
            = (''### '' @ g) # map (\<lambda>e. ''- '' @ stringify_event L e) (filter (\<lambda>e. tag_of e = g) events)" for g
    using G(4) by (simp add: group_lines_def fmt_def items_of_def [symmetric] comp_def)
  show ?thesis
    using G(1) ks
    by (simp add: rolling_summary_def Let_def summary_text_spec_def comp_def gl)
qed

lemma rolling_summary_ref:
  "rolling_summary L conv events = Inr s \<Longrightarrow>
   summary_ref s = sha256_hex L (content s) \<and> s_conversation_id s = conv
   \<and> rolling_summary L conv' events = Inr (s\<lparr>s_conversation_id := conv'\<rparr>)"
  by (auto simp: rolling_summary_def Let_def split: sum.splits)

text \<open>
  Claim C4. \<open>rolling_summary\<close> reads nothing but its arguments. Whenever it returns a
  summary, the \<open>summary_ref\<close> is the SHA-256 digest of the content, and the same event list
  under any other conversation id gives the same content and the same \<open>summary_ref\<close>. For
  events whose type is a string (or absent), it always returns, and the content is the
  text \<open>summary_text_spec\<close>, which is determined by the events and their order; so two
  calls on the same list return the same content and the same \<open>summary_ref\<close>.
\<close>

theorem rolling_summary_pure:
  "(rolling_summary L conv events = Inr s \<longrightarrow>
      summary_ref s = sha256_hex L (content s)
      \<and> rolling_summary L conv' events = Inr (s\<lparr>s_conversation_id := conv'\<rparr>))
   \<and> ((\<forall>e\<in>set events. is_str (get_default e ''type'' (JStr ''UNKNOWN''))) \<longrightarrow>
        rolling_summary L conv events
          = Inr \<lparr>s_conversation_id = conv, content = summary_text_spec L events,
                 summary_ref = sha256_hex L (summary_text_spec L events)\<rparr>)"
  using rolling_summary_ref [of L conv events s conv'] rolling_summary_spec [of events L conv]
  by blast

theorem rolling_summary_pure_witness:
  "rolling_summary lib0 ''alpha'' events_s
     = Inr \<lparr>s_conversation_id = ''alpha'',
            content = ''### AGENT_UPDATE'' @ [CHR 0x0A] @ ''- working'' @ [CHR 0x0A]
                      @ ''### USER_MESSAGE'' @ [CHR 0x0A] @ ''- Hello'' @ [CHR 0x0A]
                      @ ''- Status?'',
            summary_ref = ''<sha256>''\<rparr>
   \<and> rolling_summary lib0 ''beta'' events_s
     = Inr \<lparr>s_conversation_id = ''beta'',
            content = ''### AGENT_UPDATE'' @ [CHR 0x0A] @ ''- working'' @ [CHR 0x0A]
                      @ ''### USER_MESSAGE'' @ [CHR 0x0A] @ ''- Hello'' @ [CHR 0x0A]
                      @ ''- Status?'',
            summary_ref = ''<sha256>''\<rparr>"
proof -
  have h: "\<forall>e\<in>set events_s. is_str (get_default e ''type'' (JStr ''UNKNOWN''))"
    by (simp add: events_s_def get_default_def)
  have t: "summary_text_spec lib0 events_s
           = ''### AGENT_UPDATE'' @ [CHR 0x0A] @ ''- working'' @ [CHR 0x0A]
             @ ''### USER_MESSAGE'' @ [CHR 0x0A] @ ''- Hello'' @ [CHR 0x0A] @ ''- Status?''"
    by (simp add: summary_text_spec_def events_s_def tag_of_def get_default_def get_none_def
        stringify_event_def lib0_def)
  have a: "rolling_summary lib0 ''alpha'' events_s
     = Inr \<lparr>s_conversation_id = ''alpha'', content = summary_text_spec lib0 events_s,
            summary_ref = sha256_hex lib0 (summary_text_spec lib0 events_s)\<rparr>"
    using rolling_summary_pure [of lib0 "''alpha''" events_s] h by blast
  have b: "rolling_summary lib0 ''beta'' events_s
     = Inr (\<lparr>s_conversation_id = ''alpha'', content = summary_text_spec lib0 events_s,
            summary_ref = sha256_hex lib0 (summary_text_spec lib0 events_s)\<rparr>
              \<lparr>s_conversation_id := ''beta''\<rparr>)"
    using rolling_summary_pure [of lib0 "''alpha''" events_s _ "''beta''"] a by blast
  have r: "sha256_hex lib0 x = ''<sha256>''" for x
    by (simp add: lib0_def)
  show ?thesis
    using a b by (simp add: t r)
qed

section \<open>The context window\<close>

lemma slices_fit:
  "int (length events) \<le> m \<Longrightarrow> slice_from (- m) events = events \<and> slice_to (- m) events = []"
  by (auto simp: slice_from_def slice_to_def)

lemma slices_overflow:
  "0 < m \<Longrightarrow> m < int (length events) \<Longrightarrow>
   slice_from (- m) events = drop (length events - nat m) events
   \<and> slice_to (- m) events = take (length events - nat m) events
   \<and> take (length events - nat m) events \<noteq> []"
  by (auto simp: slice_from_def slice_to_def nat_diff_distrib')

lemma window_fit:
  assumes "int (length events) \<le> max_events"
  shows "build_context_slice L now uuid conv events max_events logs files
         = (Inr (join [CHR 0x0A] (map (render_line L) events)), logs, files)"
  using slices_fit [OF assms] by (simp add: build_context_slice_def Let_def)

lemma window_overflow:
  assumes "0 < max_events" and "max_events < int (length events)" and "conv \<noteq> []"
    and "can_open L (summary_path conv)" and "can_open L (log_path conv)"
    and "rolling_summary L conv (take (length events - nat max_events) events) = Inr s"
  shows "build_context_slice L now uuid conv events max_events logs files
         = (Inr (join [CHR 0x0A]
                   (map (render_line L) (drop (length events - nat max_events) events))
                 @ summary_section conv s),
            logs(conv \<mapsto> journal logs conv
                   @ [entry_of now uuid (JStr conv)
                        [(''conversation_id'', JStr conv),
                         (''type'', JStr ''SUMMARY_REFRESH''),
                         (''payload'', JObj [(''summary_ref'', JStr (summary_ref s))]),
                         (''visibility'', JStr ''internal'')]]),
            files(conv \<mapsto> ''<!-- summary_ref:'' @ summary_ref s @ '' -->'' @ [CHR 0x0A]
                            @ content s @ [CHR 0x0A]))"
  using slices_overflow [OF assms(1,2)] assms(3-6)
  by (simp add: build_context_slice_def Let_def append_event_def get_none_def fmt_def
      persist_summary_def)

text \<open>With a budget of zero the slices are \<open>events[-0:]\<close> and \<open>events[:-0]\<close>, that is
  \<open>events[0:]\<close> and \<open>events[:0]\<close>: every event is kept and nothing is summarised.\<close>

lemma window_zero_budget:
  "build_context_slice L now uuid conv events 0 logs files
   = (Inr (join [CHR 0x0A] (map (render_line L) events)), logs, files)"
  by (simp add: build_context_slice_def Let_def slice_from_def slice_to_def)

text \<open>A conversation id that names a directory nobody created: the summary file cannot be
  written, and \<open>build_context_slice\<close> raises with the log and the summaries untouched.\<close>

lemma window_missing_directory:
  "build_context_slice lib0 ''2024-05-01T10:00:00Z'' ''77aa'' ''x/y'' events_s 2
     (\<lambda>k. None) (\<lambda>k. None)
   = (Inl OSError, (\<lambda>k. None), (\<lambda>k. None))"
  by (simp add: build_context_slice_def slice_from_def slice_to_def events_s_def
      rolling_summary_def sorted_keys_def group_lines_def stringify_event_def get_default_def
      get_none_def fmt_def lib0_def Let_def persist_summary_def summary_path_def)

text \<open>
  Claim C6, as amended. When the event list has at most \<open>max_events\<close> events,
  \<open>build_context_slice\<close> renders every event, one \<open>render_line\<close> each joined by newlines,
  writes no summary and appends no event. When the list is longer than \<open>max_events\<close>,
  \<open>max_events\<close> is at least one, the conversation id is not empty and has no path
  separator, its summary file and its journal can be opened, and the summary \<open>s\<close> of the overflow prefix can be computed,
  it renders exactly the last \<open>max_events\<close> events, writes \<open>s\<close> as the conversation's summary
  file, appends exactly one entry to the conversation's journal (the \<open>SUMMARY_REFRESH\<close> event
  with \<open>s\<close>'s \<open>summary_ref\<close>) and nothing to any other journal, and ends the returned text
  with the pointer to the summary.
\<close>

theorem build_context_slice_window:
  "(int (length events) \<le> max_events \<longrightarrow>
      build_context_slice L now uuid conv events max_events logs files
        = (Inr (join [CHR 0x0A] (map (render_line L) events)), logs, files))
   \<and> (0 < max_events \<and> max_events < int (length events) \<and> conv \<noteq> []
        \<and> CHR ''/'' \<notin> set conv
        \<and> can_open L (summary_path conv) \<and> can_open L (log_path conv)
        \<and> rolling_summary L conv (take (length events - nat max_events) events) = Inr s \<longrightarrow>
        length (drop (length events - nat max_events) events) = nat max_events
        \<and> build_context_slice L now uuid conv events max_events logs files
            = (Inr (join [CHR 0x0A]
                      (map (render_line L) (drop (length events - nat max_events) events))
                    @ summary_section conv s),
               logs(conv \<mapsto> journal logs conv
                      @ [entry_of now uuid (JStr conv)
                           [(''conversation_id'', JStr conv),
                            (''type'', JStr ''SUMMARY_REFRESH''),
                            (''payload'', JObj [(''summary_ref'', JStr (summary_ref s))]),
                            (''visibility'', JStr ''internal'')]]),
               files(conv \<mapsto> ''<!-- summary_ref:'' @ summary_ref s @ '' -->'' @ [CHR 0x0A]
                               @ content s @ [CHR 0x0A])))"
proof (intro conjI impI)
  assume "int (length events) \<le> max_events"
  then show "build_context_slice L now uuid conv events max_events logs files
        = (Inr (join [CHR 0x0A] (map (render_line L) events)), logs, files)"
    by (rule window_fit)
next
  assume a: "0 < max_events \<and> max_events < int (length events) \<and> conv \<noteq> []
        \<and> CHR ''/'' \<notin> set conv
        \<and> can_open L (summary_path conv) \<and> can_open L (log_path conv)
        \<and> rolling_summary L conv (take (length events - nat max_events) events) = Inr s"
  then show "length (drop (length events - nat max_events) events) = nat max_events"
    by auto
next
  assume a: "0 < max_events \<and> max_events < int (length events) \<and> conv \<noteq> []
        \<and> CHR ''/'' \<notin> set conv
        \<and> can_open L (summary_path conv) \<and> can_open L (log_path conv)
        \<and> rolling_summary L conv (take (length events - nat max_events) events) = Inr s"
  then show "build_context_slice L now uuid conv events max_events logs files
            = (Inr (join [CHR 0x0A]
                      (map (render_line L) (drop (length events - nat max_events) events))
                    @ summary_section conv s),
               logs(conv \<mapsto> journal logs conv
                      @ [entry_of now uuid (JStr conv)
                           [(''conversation_id'', JStr conv),
                            (''type'', JStr ''SUMMARY_REFRESH''),
                            (''payload'', JObj [(''summary_ref'', JStr (summary_ref s))]),
                            (''visibility'', JStr ''internal'')]]),
               files(conv \<mapsto> ''<!-- summary_ref:'' @ summary_ref s @ '' -->'' @ [CHR 0x0A]
                               @ content s @ [CHR 0x0A]))"
    by (intro window_overflow) simp_all
qed

theorem build_context_slice_window_witness:
  "fst (build_context_slice lib0 ''2024-05-01T10:00:00Z'' ''77aa'' ''conv-1'' events_s 2
          (\<lambda>k. None) (\<lambda>k. None))
     = Inr (''- [AGENT_UPDATE] working'' @ [CHR 0x0A] @ ''- [USER_MESSAGE] Status?''
            @ [CHR 0x0A] @ ''### Summaries'' @ [CHR 0x0A]
            @ ''- Ref <sha256> (see summaries/conv-1.md)'')
   \<and> journal (fst (snd (build_context_slice lib0 ''2024-05-01T10:00:00Z'' ''77aa'' ''conv-1''
                          events_s 2 (\<lambda>k. None) (\<lambda>k. None)))) ''conv-1''
     = [[(''conversation_id'', JStr ''conv-1''), (''type'', JStr ''SUMMARY_REFRESH''),
         (''payload'', JObj [(''summary_ref'', JStr ''<sha256>'')]),
         (''visibility'', JStr ''internal''), (''id'', JStr ''evt-77aa''),
         (''timestamp'', JStr ''2024-05-01T10:00:00Z'')]]
   \<and> snd (snd (build_context_slice lib0 ''2024-05-01T10:00:00Z'' ''77aa'' ''conv-1''
                  events_s 2 (\<lambda>k. None) (\<lambda>k. None))) ''conv-1''
     = Some (''<!-- summary_ref:<sha256> -->'' @ [CHR 0x0A] @ ''### USER_MESSAGE''
             @ [CHR 0x0A] @ ''- Hello'' @ [CHR 0x0A])
   \<and> build_context_slice lib0 ''2024-05-01T10:00:00Z'' ''77aa'' ''conv-1'' events_s 30
        (\<lambda>k. None) (\<lambda>k. None)
     = (Inr (''- [USER_MESSAGE] Hello'' @ [CHR 0x0A] @ ''- [AGENT_UPDATE] working''
             @ [CHR 0x0A] @ ''- [USER_MESSAGE] Status?''),
        (\<lambda>k. None), (\<lambda>k. None))"
proof -
  let ?s = "\<lparr>s_conversation_id = ''conv-1'',
             content = ''### USER_MESSAGE'' @ [CHR 0x0A] @ ''- Hello'',
             summary_ref = ''<sha256>''\<rparr>"
  have len: "length events_s = 3" by (simp add: events_s_def)
  have sm: "rolling_summary lib0 ''conv-1'' (take (length events_s - nat 2) events_s) = Inr ?s"
    by (simp add: events_s_def rolling_summary_def sorted_keys_def group_lines_def
        stringify_event_def get_default_def get_none_def fmt_def lib0_def Let_def)
  have op: "can_open lib0 (summary_path ''conv-1'') \<and> can_open lib0 (log_path ''conv-1'')"
    by (simp add: lib0_def summary_path_def log_path_def)
  have pre: "0 < (2::int) \<and> 2 < int (length events_s) \<and> ''conv-1'' \<noteq> []
             \<and> CHR ''/'' \<notin> set ''conv-1''
             \<and> can_open lib0 (summary_path ''conv-1'') \<and> can_open lib0 (log_path ''conv-1'')
             \<and> rolling_summary lib0 ''conv-1'' (take (length events_s - nat 2) events_s) = Inr ?s"
    using sm len op by simp
  have over: "build_context_slice lib0 ''2024-05-01T10:00:00Z'' ''77aa'' ''conv-1'' events_s 2
                (\<lambda>k. None) (\<lambda>k. None)
      = (Inr (join [CHR 0x0A]
                (map (render_line lib0) (drop (length events_s - nat 2) events_s))
              @ summary_section ''conv-1'' ?s),
         (\<lambda>k. None)(''conv-1'' \<mapsto> journal (\<lambda>k. None) ''conv-1''
                @ [entry_of ''2024-05-01T10:00:00Z'' ''77aa'' (JStr ''conv-1'')
                     [(''conversation_id'', JStr ''conv-1''),
                      (''type'', JStr ''SUMMARY_REFRESH''),
                      (''payload'', JObj [(''summary_ref'', JStr (summary_ref ?s))]),
                      (''visibility'', JStr ''internal'')]]),
         (\<lambda>k. None)(''conv-1'' \<mapsto> ''<!-- summary_ref:'' @ summary_ref ?s @ '' -->''
                @ [CHR 0x0A] @ content ?s @ [CHR 0x0A]))"
    using build_context_slice_window [of events_s 2 lib0 "''2024-05-01T10:00:00Z''" "''77aa''"
        "''conv-1''" "\<lambda>k. None" "\<lambda>k. None" ?s] pre
    by blast
  have fit: "build_context_slice lib0 ''2024-05-01T10:00:00Z'' ''77aa'' ''conv-1'' events_s 30
               (\<lambda>k. None) (\<lambda>k. None)
      = (Inr (join [CHR 0x0A] (map (render_line lib0) events_s)), (\<lambda>k. None), (\<lambda>k. None))"
    using build_context_slice_window [of events_s 30 lib0 "''2024-05-01T10:00:00Z''" "''77aa''"
        "''conv-1''" "\<lambda>k. None" "\<lambda>k. None"] len
    by simp
  show ?thesis
    unfolding over fit
    by (simp add: events_s_def render_line_def render_payload_def get_default_def
        get_none_def fmt_def summary_section_def journal_def entry_of_def
        setdefault_def)
qed

text \<open>
  Claim C6 as stated fails: \<open>append_event\<close> requires a non-empty conversation id. With the
  empty id and three events against a budget of two, the summary of the overflow is
  written, then the append raises \<open>ValueError\<close>: no \<open>SUMMARY_REFRESH\<close> event is appended and
  no text is returned.
\<close>

theorem build_context_slice_counterexample:
  "(2::int) < int (length events_s)
   \<and> fst (build_context_slice lib0 ''2024-05-01T10:00:00Z'' ''77aa'' [] events_s 2
            (\<lambda>k. None) (\<lambda>k. None))
       = Inl (ValueError ''conversation_id is required'')
   \<and> fst (snd (build_context_slice lib0 ''2024-05-01T10:00:00Z'' ''77aa'' [] events_s 2
                 (\<lambda>k. None) (\<lambda>k. None)))
       = (\<lambda>k. None)
   \<and> snd (snd (build_context_slice lib0 ''2024-05-01T10:00:00Z'' ''77aa'' [] events_s 2
                 (\<lambda>k. None) (\<lambda>k. None))) []
       = Some (''<!-- summary_ref:<sha256> -->'' @ [CHR 0x0A] @ ''### USER_MESSAGE''
               @ [CHR 0x0A] @ ''- Hello'' @ [CHR 0x0A])"
  by (simp add: build_context_slice_def slice_from_def slice_to_def events_s_def
      rolling_summary_def sorted_keys_def group_lines_def stringify_event_def get_default_def
      get_none_def fmt_def lib0_def Let_def append_event_def persist_summary_def
      summary_path_def)

end
